theory Spec2Isabelle
  imports Complex_Main
begin

section \<open>Values and errors\<close>

text \<open>
  An entry of a numpy float array: a finite number, one of the two infinities, or
  not-a-number. Rounding is not modelled; finite entries are real numbers.
\<close>

datatype fl = NaN | PInf | NInf | Fin real

text \<open>A two-dimensional float array, as the list of its rows.\<close>

type_synonym grid = "fl list list"

text \<open>
  The exceptions the modelled code raises. \<open>AssertionError\<close> carries the two values
  that the message of the failed assertion formats: the requested altitude and the
  calibration altitudes in kilometres.
\<close>

datatype error =
    ValueError
  | IndexError
  | AssertionError real "real list"
  | NotImplementedError string

text \<open>\<open>np.isfinite\<close> and \<open>np.isnan\<close> on one entry.\<close>

fun isfinite :: "fl \<Rightarrow> bool" where
  "isfinite (Fin a) = True"
| "isfinite v = False"

fun isnan :: "fl \<Rightarrow> bool" where
  "isnan NaN = True"
| "isnan v = False"

text \<open>The comparison \<open><\<close> of floats: false as soon as one side is not-a-number.\<close>

fun fl_less :: "fl \<Rightarrow> fl \<Rightarrow> bool" where
  "fl_less NaN b = False"
| "fl_less a NaN = False"
| "fl_less a NInf = False"
| "fl_less NInf b = True"
| "fl_less PInf b = False"
| "fl_less (Fin a) PInf = True"
| "fl_less (Fin a) (Fin b) = (a < b)"

text \<open>\<open>np.fmax\<close>: the larger of two entries, where a not-a-number loses to anything.\<close>

fun fmax :: "fl \<Rightarrow> fl \<Rightarrow> fl" where
  "fmax NaN b = b"
| "fmax a NaN = a"
| "fmax a b = (if fl_less a b then b else a)"

text \<open>
  \<open>np.nanmax\<close> over the entries of an array, given flattened: \<open>np.fmax\<close> reduced from
  the first entry on. A zero-size array raises \<open>ValueError\<close>; an array of
  not-a-numbers only gives not-a-number (numpy warns and returns it).
\<close>

fun nanmax :: "fl list \<Rightarrow> error + fl" where
  "nanmax [] = Inl ValueError"
| "nanmax (v # vs) = Inr (foldl fmax v vs)"

section \<open>Colour map selection of \<open>plot_map\<close>\<close>

text \<open>\<open>str.lower\<close> on the ASCII letters.\<close>

definition lower_char :: "char \<Rightarrow> char" where
  "lower_char c =
     (let n = (of_char c :: nat) in if 65 \<le> n \<and> n \<le> 90 then char_of (n + 32) else c)"

definition lower :: "string \<Rightarrow> string" where
  "lower s = map lower_char s"

text \<open>
  The value of \<open>color_map\<close> after the selection: the name of a matplotlib colour map, or
  the map built by \<open>LinearSegmentedColormap.from_list\<close> from a name and its colours.
\<close>

datatype color_map = Name string | LinearSegmented string "string list"

text \<open>
  Lines 122 to 127 of \<open>plot_map\<close>: the \<open>if\<close>/\<open>elif\<close>/\<open>else\<close> chain on \<open>color_map\<close> and
  \<open>mission\<close>, in the order of the source. The character \<open>CHR 0x22\<close> is the double
  quote of the message.
\<close>

definition select_color_map :: "string \<Rightarrow> string \<Rightarrow> error + color_map" where
  "select_color_map color_map mission =
     (if color_map = ''auto'' \<and> lower mission = ''themis'' then Inr (Name ''Greys_r'')
      else if color_map = ''auto'' \<and> lower mission = ''rego''
        then Inr (LinearSegmented ''black_to_red'' [''k'', ''r''])
      else Inl (NotImplementedError
             (''color_map == '' @ [CHR 0x22] @ ''auto'' @ [CHR 0x22] @
              '' but the mission is unsupported'')))"

section \<open>Altitude lookup of \<open>plot_map\<close>\<close>

text \<open>\<open>np.where(a == v)[0]\<close>: the indices of the entries equal to \<open>v\<close>, ascending.\<close>

definition where_eq :: "real list \<Rightarrow> real \<Rightarrow> nat list" where
  "where_eq a v = filter (\<lambda>i. a ! i = v) [0..<length a]"

text \<open>
  The calibration altitudes are in metres and are divided by 1000 before the
  comparison.
\<close>

definition to_km :: "real \<Rightarrow> real" where
  "to_km a = a / 1000"

text \<open>
  The lookup of \<open>plot_map\<close> (lines 90 to 98), which has no altitude modes: the
  assertion is a membership test, and the index is the first match,
  \<open>np.where(...)[0][0]\<close>. The latitude and longitude stacks are indexed by the
  altitude index; an index beyond a stack is numpy's \<open>IndexError\<close>. The grids are the
  ones passed on to the masker, longitude first.

  The other lookup, the branch \<open>custom_alt == False\<close> of \<open>trex_rgb\<close> (lines 166 to
  173 of \<open>trex.py\<close>), is not modelled: line 181 of that file, an \<open>elif\<close> without its
  colon, is a syntax error, so the module cannot be imported and the function never
  runs.
\<close>

definition plot_map_alt ::
  "real list \<Rightarrow> real \<Rightarrow> grid list \<Rightarrow> grid list \<Rightarrow> error + (grid \<times> grid)" where
  "plot_map_alt full_map_altitude map_alt full_map_longitude full_map_latitude =
     (let km = map to_km full_map_altitude
      in if map_alt \<notin> set km then Inl (AssertionError map_alt km)
         else let alt_index = hd (where_eq km map_alt)
              in if alt_index < length full_map_longitude
                 then (if alt_index < length full_map_latitude
                       then Inr (full_map_longitude ! alt_index, full_map_latitude ! alt_index)
                       else Inl IndexError)
                 else Inl IndexError)"

section \<open>The compressor \<open>pcolormesh_nan\<close>\<close>

text \<open>
  The arguments \<open>x\<close> and \<open>y\<close> are two-dimensional float arrays of one common shape:
  \<open>shape h w g\<close> says that \<open>g\<close> has \<open>h\<close> rows of \<open>w\<close> entries.
\<close>

definition shape :: "nat \<Rightarrow> nat \<Rightarrow> 'a list list \<Rightarrow> bool" where
  "shape h w g = (length g = h \<and> list_all (\<lambda>r. length r = w) g)"

text \<open>
  \<open>mask = np.isfinite(x) & np.isfinite(y)\<close>, entry by entry. On arrays of different
  shapes numpy broadcasts or raises; that is not modelled, and every statement below is
  about arrays of one common shape.
\<close>

definition mask :: "grid \<Rightarrow> grid \<Rightarrow> bool list list" where
  "mask x y = map2 (\<lambda>rx ry. map2 (\<lambda>a b. isfinite a \<and> isfinite b) rx ry) x y"

text \<open>\<open>m.nonzero()[0]\<close>: the indices of the true entries of a row of the mask, ascending.\<close>

definition nonzero :: "bool list \<Rightarrow> nat list" where
  "nonzero m = filter (\<lambda>j. m ! j) [0..<length m]"

text \<open>
  The slice assignments of the loop body on one row \<open>r = x[i]\<close>, for a column \<open>k\<close>
  of the row: \<open>x[i, k:] = x[i, k]\<close> and \<open>x[i, :k] = x[i, k]\<close>.
\<close>

definition row_from :: "nat \<Rightarrow> fl list \<Rightarrow> fl list" where
  "row_from k r = take k r @ replicate (length r - k) (r ! k)"

definition row_upto :: "nat \<Rightarrow> fl list \<Rightarrow> fl list" where
  "row_upto k r = replicate k (r ! k) @ drop k r"

definition assign_from :: "nat \<Rightarrow> nat \<Rightarrow> grid \<Rightarrow> grid" where
  "assign_from i k g = g[i := row_from k (g ! i)]"

definition assign_upto :: "nat \<Rightarrow> nat \<Rightarrow> grid \<Rightarrow> grid" where
  "assign_upto i k g = g[i := row_upto k (g ! i)]"

text \<open>
  The loop \<open>for i, m in enumerate(mask)\<close>, from row \<open>i\<close> on, over the remaining rows of
  the mask. The state is the two arrays and the variables \<open>top\<close> and \<open>bottom\<close>
  (\<open>None\<close> as in the source), here \<open>top_row\<close> and \<open>bottom_row\<close>.
\<close>

fun rows_loop ::
  "nat \<Rightarrow> bool list list \<Rightarrow> grid \<Rightarrow> grid \<Rightarrow> nat option \<Rightarrow> nat option \<Rightarrow>
     grid \<times> grid \<times> nat option \<times> nat option" where
  "rows_loop i [] x y top_row bottom_row = (x, y, top_row, bottom_row)"
| "rows_loop i (m # ms) x y top_row bottom_row =
     (let good = nonzero m
      in if good = [] then rows_loop (Suc i) ms x y top_row bottom_row
         else
           let top1 = (if top_row = None then Some i else top_row);
               bottom1 = (if top_row = None then bottom_row else Some i);
               x1 = assign_from i (last good) x;
               y1 = assign_from i (last good) y;
               x2 = assign_upto i (hd good) x1;
               y2 = assign_upto i (hd good) y1
           in rows_loop (Suc i) ms x2 y2 top1 bottom1)"

text \<open>
  The index expressions after the loop. \<open>x[top, :]\<close> is row \<open>top\<close>; with \<open>top\<close> equal
  to \<open>None\<close> it is \<open>x[np.newaxis, :]\<close>, the whole array. \<open>x[:top, :] = v\<close> overwrites
  the rows before \<open>top\<close> and \<open>x[bottom:, :] = v\<close> the rows from \<open>bottom\<close> on; with
  \<open>None\<close> as the bound either slice is every row.
\<close>

definition row_sel :: "nat option \<Rightarrow> grid \<Rightarrow> fl list" where
  "row_sel k g = (case k of None \<Rightarrow> concat g | Some i \<Rightarrow> g ! i)"

definition fill_row :: "fl \<Rightarrow> fl list \<Rightarrow> fl list" where
  "fill_row v r = replicate (length r) v"

definition assign_rows_before :: "nat option \<Rightarrow> fl \<Rightarrow> grid \<Rightarrow> grid" where
  "assign_rows_before k v g =
     (case k of None \<Rightarrow> map (fill_row v) g
      | Some t \<Rightarrow> map (fill_row v) (take t g) @ drop t g)"

definition assign_rows_from :: "nat option \<Rightarrow> fl \<Rightarrow> grid \<Rightarrow> grid" where
  "assign_rows_from k v g =
     (case k of None \<Rightarrow> map (fill_row v) g
      | Some b \<Rightarrow> take b g @ map (fill_row v) (drop b g))"

text \<open>
  \<open>pcolormesh_nan\<close> on the values of \<open>x\<close> and \<open>y\<close>, two distinct arrays: the loop,
  then the four assignments of lines 190 to 194 in their order, each after its
  \<open>np.nanmax\<close>. The result is the pair of arrays as they are when the last statement,
  the call of \<open>ax.pcolormesh\<close>, is reached, not yet what the call of \<open>pcolormesh_nan\<close>
  returns.
\<close>

definition pcolormesh_nan :: "grid \<Rightarrow> grid \<Rightarrow> error + (grid \<times> grid)" where
  "pcolormesh_nan x y =
     (case rows_loop 0 (mask x y) x y None None of
        (x1, y1, top_row, bottom_row) \<Rightarrow>
          (case nanmax (row_sel top_row x1) of Inl e \<Rightarrow> Inl e | Inr vx \<Rightarrow>
             let x2 = assign_rows_before top_row vx x1 in
             (case nanmax (row_sel top_row y1) of Inl e \<Rightarrow> Inl e | Inr vy \<Rightarrow>
                let y2 = assign_rows_before top_row vy y1 in
                (case nanmax (row_sel bottom_row x2) of Inl e \<Rightarrow> Inl e | Inr wx \<Rightarrow>
                   let x3 = assign_rows_from bottom_row wx x2 in
                   (case nanmax (row_sel bottom_row y2) of Inl e \<Rightarrow> Inl e | Inr wy \<Rightarrow>
                      let y3 = assign_rows_from bottom_row wy y2 in
                      Inr (x3, y3))))))"

text \<open>
  The last statement, \<open>ax.pcolormesh(x, y, c[::-1, ::-1], ...)\<close>, is a call into
  matplotlib. Of that call one thing is modelled: it raises \<open>ValueError\<close> when an entry
  of \<open>x\<close> or of \<open>y\<close> is not finite, and draws the mesh otherwise. What it asks of the
  dimensions of \<open>c\<close> is left out.
\<close>

definition ax_pcolormesh :: "grid \<Rightarrow> grid \<Rightarrow> error option" where
  "ax_pcolormesh x y =
     (if list_all (list_all isfinite) x \<and> list_all (list_all isfinite) y then None
      else Some ValueError)"

text \<open>
  A whole call of \<open>pcolormesh_nan\<close>: the assignments, then the rendering call. The
  function returns nothing; the result of a call that returns is the final content of
  \<open>x\<close> and \<open>y\<close>.
\<close>

definition pcolormesh_nan_call :: "grid \<Rightarrow> grid \<Rightarrow> error + (grid \<times> grid)" where
  "pcolormesh_nan_call x y =
     (case pcolormesh_nan x y of
        Inl e \<Rightarrow> Inl e
      | Inr (x3, y3) \<Rightarrow>
          (case ax_pcolormesh x3 y3 of Some e \<Rightarrow> Inl e | None \<Rightarrow> Inr (x3, y3)))"

text \<open>
  The arrays as \<open>pcolormesh_nan\<close> really receives them: references into a heap, which
  it updates in place. A heap is the list of the arrays alive, an address is an index
  into it, and a new array is put at the end. An array has integer or float entries.
\<close>

datatype array = IntArray "int list list" | FloatArray grid

type_synonym heap = "array list"

text \<open>\<open>a.astype(float)\<close>: the entries as floats (a float array keeps its entries).\<close>

definition astype_float :: "array \<Rightarrow> grid" where
  "astype_float a =
     (case a of IntArray g \<Rightarrow> map (map (\<lambda>k. Fin (of_int k))) g | FloatArray g \<Rightarrow> g)"

text \<open>
  One statement that reads the array at address \<open>a\<close> and writes it back changed by
  \<open>f\<close>; every other address keeps its array. The arrays \<open>x\<close> and \<open>y\<close> of the
  compressor are float arrays, and the statement is modelled for those.
\<close>

definition modify :: "nat \<Rightarrow> (grid \<Rightarrow> grid) \<Rightarrow> heap \<Rightarrow> heap" where
  "modify a f h = h[a := FloatArray (f (astype_float (h ! a)))]"

text \<open>
  The loop and the function once more, statement by statement on the heap, for the
  addresses \<open>x\<close>, \<open>y\<close> and \<open>c\<close> of the three array arguments, the rendering call
  included. The frame \<open>c\<close> is only read, by the rendering call, through the view
  \<open>c[::-1, ::-1]\<close>. The result is the heap after a call that returns.
\<close>

fun rows_loop_heap ::
  "nat \<Rightarrow> bool list list \<Rightarrow> nat \<Rightarrow> nat \<Rightarrow> heap \<Rightarrow> nat option \<Rightarrow> nat option \<Rightarrow>
     heap \<times> nat option \<times> nat option" where
  "rows_loop_heap i [] x y h top_row bottom_row = (h, top_row, bottom_row)"
| "rows_loop_heap i (m # ms) x y h top_row bottom_row =
     (let good = nonzero m
      in if good = [] then rows_loop_heap (Suc i) ms x y h top_row bottom_row
         else
           let top1 = (if top_row = None then Some i else top_row);
               bottom1 = (if top_row = None then bottom_row else Some i);
               h1 = modify x (assign_from i (last good)) h;
               h2 = modify y (assign_from i (last good)) h1;
               h3 = modify x (assign_upto i (hd good)) h2;
               h4 = modify y (assign_upto i (hd good)) h3
           in rows_loop_heap (Suc i) ms x y h4 top1 bottom1)"

definition pcolormesh_nan_heap :: "heap \<Rightarrow> nat \<Rightarrow> nat \<Rightarrow> nat \<Rightarrow> error + heap" where
  "pcolormesh_nan_heap h x y c =
     (case rows_loop_heap 0 (mask (astype_float (h ! x)) (astype_float (h ! y))) x y h
             None None of
        (h1, top_row, bottom_row) \<Rightarrow>
          (case nanmax (row_sel top_row (astype_float (h1 ! x))) of
             Inl e \<Rightarrow> Inl e
           | Inr vx \<Rightarrow>
             let h2 = modify x (assign_rows_before top_row vx) h1 in
             (case nanmax (row_sel top_row (astype_float (h2 ! y))) of
                Inl e \<Rightarrow> Inl e
              | Inr vy \<Rightarrow>
                let h3 = modify y (assign_rows_before top_row vy) h2 in
                (case nanmax (row_sel bottom_row (astype_float (h3 ! x))) of
                   Inl e \<Rightarrow> Inl e
                 | Inr wx \<Rightarrow>
                   let h4 = modify x (assign_rows_from bottom_row wx) h3 in
                   (case nanmax (row_sel bottom_row (astype_float (h4 ! y))) of
                      Inl e \<Rightarrow> Inl e
                    | Inr wy \<Rightarrow>
                      let h5 = modify y (assign_rows_from bottom_row wy) h4 in
                      (case ax_pcolormesh (astype_float (h5 ! x)) (astype_float (h5 ! y)) of
                         Some e \<Rightarrow> Inl e
                       | None \<Rightarrow> Inr h5))))))"

text \<open>
  Notions used to state what the compressor does: an entry is valid when both arrays
  are finite there; a row of the mask is fixed by the two clamps of the loop body, or
  left alone when it has no true entry; \<open>valid_rows i ms\<close> lists the indices of the
  rows of the mask with a true entry, counted from \<open>i\<close>, and \<open>top_of\<close> and
  \<open>bottom_of\<close> are what the loop leaves in \<open>top\<close> and \<open>bottom\<close> for such a list: the
  first index, and the last one when there are two at least; \<open>no_inf\<close> holds of an
  array without infinities.
\<close>

definition valid_at :: "grid \<Rightarrow> grid \<Rightarrow> nat \<Rightarrow> nat \<Rightarrow> bool" where
  "valid_at x y i j = (isfinite (x ! i ! j) \<and> isfinite (y ! i ! j))"

definition row_fix :: "bool list \<Rightarrow> fl list \<Rightarrow> fl list" where
  "row_fix m r =
     (let good = nonzero m
      in if good = [] then r else row_upto (hd good) (row_from (last good) r))"

fun valid_rows :: "nat \<Rightarrow> bool list list \<Rightarrow> nat list" where
  "valid_rows i [] = []"
| "valid_rows i (m # ms) =
     (if nonzero m = [] then valid_rows (Suc i) ms else i # valid_rows (Suc i) ms)"

definition top_of :: "nat list \<Rightarrow> nat option" where
  "top_of vs = (case vs of [] \<Rightarrow> None | t # rest \<Rightarrow> Some t)"

definition bottom_of :: "nat list \<Rightarrow> nat option" where
  "bottom_of vs = (case vs of [] \<Rightarrow> None | t # rest \<Rightarrow> (if rest = [] then None else Some (last rest)))"

definition no_inf :: "grid \<Rightarrow> bool" where
  "no_inf g = list_all (list_all (\<lambda>v. v \<noteq> PInf \<and> v \<noteq> NInf)) g"

text \<open>
  The compressed content of an array written a second time, entry by entry from the
  arrays passed in and without the assignments of the code, for grids with two valid
  rows at least; the code is compared with it below. \<open>valid_cols x y i\<close> lists the columns of row \<open>i\<close> that are valid and
  \<open>valid_row_list x y\<close> the rows that have one. \<open>clamped_row x y g i\<close> is row \<open>i\<close> of
  \<open>g\<close> with the entries before its first valid column set to the entry there and the
  entries after its last valid column set to the entry there. In \<open>compressed x y g\<close>
  the rows before the first valid row are filled with the maximum of that row, clamped;
  the rows from the last valid row on, that row included as in the slice
  \<open>x[bottom:, :]\<close>, are filled with the maximum of that row, clamped; the rows between
  are clamped. Here \<open>g\<close> is \<open>x\<close> or \<open>y\<close>.
\<close>

definition valid_cols :: "grid \<Rightarrow> grid \<Rightarrow> nat \<Rightarrow> nat list" where
  "valid_cols x y i = filter (\<lambda>j. valid_at x y i j) [0..<length (x ! i)]"

definition valid_row_list :: "grid \<Rightarrow> grid \<Rightarrow> nat list" where
  "valid_row_list x y = filter (\<lambda>i. valid_cols x y i \<noteq> []) [0..<length x]"

definition clamped_row :: "grid \<Rightarrow> grid \<Rightarrow> grid \<Rightarrow> nat \<Rightarrow> fl list" where
  "clamped_row x y g i =
     (let cs = valid_cols x y i
      in if cs = [] then g ! i
         else map (\<lambda>j. if j < hd cs then g ! i ! hd cs
                         else if last cs < j then g ! i ! last cs
                         else g ! i ! j) [0..<length (g ! i)])"

definition compressed :: "grid \<Rightarrow> grid \<Rightarrow> grid \<Rightarrow> grid" where
  "compressed x y g =
     (let rs = valid_row_list x y; t = hd rs; b = last rs
      in map (\<lambda>i. if i < t
                     then replicate (length (g ! i)) (foldl fmax NaN (clamped_row x y g t))
                   else if b \<le> i
                     then replicate (length (g ! i)) (foldl fmax NaN (clamped_row x y g b))
                   else clamped_row x y g i) [0..<length g])"

section \<open>The horizon masker \<open>_mask_low_horizon\<close>\<close>

text \<open>
  \<open>np.where(np.isnan(el_map) | (el_map < min_elevation))\<close>: the index pairs of the
  entries of the elevation array that are not-a-number or below the threshold, row by
  row.
\<close>

definition is_low :: "grid \<Rightarrow> fl \<Rightarrow> nat \<Rightarrow> nat \<Rightarrow> bool" where
  "is_low el_map min_elevation r c =
     (isnan (el_map ! r ! c) \<or> fl_less (el_map ! r ! c) min_elevation)"

definition where_low :: "grid \<Rightarrow> fl \<Rightarrow> (nat \<times> nat) list" where
  "where_low el_map min_elevation =
     concat (map (\<lambda>r. map (\<lambda>c. (r, c))
                        (filter (is_low el_map min_elevation r) [0..<length (el_map ! r)]))
                 [0..<length el_map])"

text \<open>
  \<open>a[idx] = np.nan\<close> for a tuple \<open>idx\<close> of row and column indices, on a float array:
  an index pair outside the array raises \<open>IndexError\<close>.
\<close>

fun assign_nan :: "(nat \<times> nat) list \<Rightarrow> grid \<Rightarrow> error + grid" where
  "assign_nan [] g = Inr g"
| "assign_nan ((r, c) # idx) g =
     (if r < length g \<and> c < length (g ! r)
      then assign_nan idx (g[r := (g ! r)[c := NaN]])
      else Inl IndexError)"

text \<open>
  The function on array values: \<open>frame\<close> of either dtype, the two maps and the
  elevations as float arrays. The copies are the values themselves.
\<close>

definition mask_low_horizon ::
  "array \<Rightarrow> grid \<Rightarrow> grid \<Rightarrow> grid \<Rightarrow> fl \<Rightarrow> error + (grid \<times> grid \<times> grid)" where
  "mask_low_horizon frame lon_map lat_map el_map min_elevation =
     (let idh = where_low el_map min_elevation;
          frame_copy = astype_float frame
      in case assign_nan idh frame_copy of Inl e \<Rightarrow> Inl e | Inr frame_copy \<Rightarrow>
         (case assign_nan idh lon_map of Inl e \<Rightarrow> Inl e | Inr lon_map_copy \<Rightarrow>
         (case assign_nan idh lat_map of Inl e \<Rightarrow> Inl e | Inr lat_map_copy \<Rightarrow>
          let idh_boundary_bottom = map (\<lambda>(r, c). (r + 1, c)) idh;
              idh_boundary_right = map (\<lambda>(r, c). (r, c + 1)) idh
          in
         (case assign_nan idh_boundary_bottom lon_map_copy of Inl e \<Rightarrow> Inl e | Inr lon_map_copy \<Rightarrow>
         (case assign_nan idh_boundary_bottom lat_map_copy of Inl e \<Rightarrow> Inl e | Inr lat_map_copy \<Rightarrow>
         (case assign_nan idh_boundary_right lon_map_copy of Inl e \<Rightarrow> Inl e | Inr lon_map_copy \<Rightarrow>
         (case assign_nan idh_boundary_right lat_map_copy of Inl e \<Rightarrow> Inl e | Inr lat_map_copy \<Rightarrow>
            Inr (frame_copy, lon_map_copy, lat_map_copy))))))))"

text \<open>
  The function on the heap. \<open>copy()\<close> and \<open>astype(float)\<close> each put a new array at the
  end of the heap; every assignment of \<open>np.nan\<close> is made through the address of a copy
  (\<open>store_nan\<close>; an integer array cannot hold not-a-number, which is why the source
  converts the frame, and numpy raises \<open>ValueError\<close>). The result is the heap after
  the call and the addresses of the three arrays returned.
\<close>

definition alloc :: "array \<Rightarrow> heap \<Rightarrow> heap \<times> nat" where
  "alloc a h = (h @ [a], length h)"

definition store_nan :: "nat \<Rightarrow> (nat \<times> nat) list \<Rightarrow> heap \<Rightarrow> error + heap" where
  "store_nan a idx h =
     (case h ! a of
        IntArray g \<Rightarrow> Inl ValueError
      | FloatArray g \<Rightarrow>
          (case assign_nan idx g of
             Inl e \<Rightarrow> Inl e
           | Inr g' \<Rightarrow> Inr (h[a := FloatArray g'])))"

definition mask_low_horizon_heap ::
  "heap \<Rightarrow> nat \<Rightarrow> nat \<Rightarrow> nat \<Rightarrow> nat \<Rightarrow> fl \<Rightarrow> error + (heap \<times> nat \<times> nat \<times> nat)" where
  "mask_low_horizon_heap h frame lon_map lat_map el_map min_elevation =
     (let idh = where_low (astype_float (h ! el_map)) min_elevation;
          (h, frame_copy) = alloc (h ! frame) h;
          (h, lon_map_copy) = alloc (h ! lon_map) h;
          (h, lat_map_copy) = alloc (h ! lat_map) h;
          (h, frame_copy) = alloc (FloatArray (astype_float (h ! frame_copy))) h
      in case store_nan frame_copy idh h of Inl e \<Rightarrow> Inl e | Inr h \<Rightarrow>
         (case store_nan lon_map_copy idh h of Inl e \<Rightarrow> Inl e | Inr h \<Rightarrow>
         (case store_nan lat_map_copy idh h of Inl e \<Rightarrow> Inl e | Inr h \<Rightarrow>
          let idh_boundary_bottom = map (\<lambda>(r, c). (r + 1, c)) idh;
              idh_boundary_right = map (\<lambda>(r, c). (r, c + 1)) idh
          in
         (case store_nan lon_map_copy idh_boundary_bottom h of Inl e \<Rightarrow> Inl e | Inr h \<Rightarrow>
         (case store_nan lat_map_copy idh_boundary_bottom h of Inl e \<Rightarrow> Inl e | Inr h \<Rightarrow>
         (case store_nan lon_map_copy idh_boundary_right h of Inl e \<Rightarrow> Inl e | Inr h \<Rightarrow>
         (case store_nan lat_map_copy idh_boundary_right h of Inl e \<Rightarrow> Inl e | Inr h \<Rightarrow>
            Inr (h, frame_copy, lon_map_copy, lat_map_copy))))))))"

text \<open>
  The vertices of the two maps that the masker sets to not-a-number: the one of a low
  cell, the one below it and the one to its right.
\<close>

definition low_cell :: "grid \<Rightarrow> fl \<Rightarrow> nat \<Rightarrow> nat \<Rightarrow> bool" where
  "low_cell el_map min_elevation r c =
     (r < length el_map \<and> c < length (el_map ! r) \<and> is_low el_map min_elevation r c)"

definition masked_vertex :: "grid \<Rightarrow> fl \<Rightarrow> nat \<Rightarrow> nat \<Rightarrow> bool" where
  "masked_vertex el_map min_elevation i j =
     (low_cell el_map min_elevation i j
      \<or> (0 < i \<and> low_cell el_map min_elevation (i - 1) j)
      \<or> (0 < j \<and> low_cell el_map min_elevation i (j - 1)))"

section \<open>Altitude lookup\<close>

lemma distinct_single: "distinct xs \<Longrightarrow> set xs = {i} \<Longrightarrow> xs = [i]"
proof (cases xs)
  case Nil
  assume "set xs = {i}"
  with Nil show ?thesis by simp
next
  case (Cons a as)
  assume d: "distinct xs" and s: "set xs = {i}"
  from s Cons have a: "a = i" by auto
  from d Cons a have "i \<notin> set as" by simp
  moreover from s Cons have "set as \<subseteq> {i}" by auto
  ultimately have "as = []" by (cases as) auto
  with a Cons show ?thesis by simp
qed

lemma filter_upt_single:
  assumes "i < n" "P i" "\<forall>j<n. P j \<longrightarrow> j = i"
  shows "filter P [0..<n] = [i]"
proof -
  have d: "distinct (filter P [0..<n])" by simp
  have "set (filter P [0..<n]) = {j. j < n \<and> P j}" by auto
  also have "\<dots> = {i}" using assms by blast
  finally have s: "set (filter P [0..<n]) = {i}" .
  show ?thesis using d s by (rule distinct_single)
qed

lemma where_eq_single:
  assumes "i < length a" "a ! i = v" "\<forall>j<length a. a ! j = v \<longrightarrow> j = i"
  shows "where_eq a v = [i]"
  unfolding where_eq_def using assms by (rule filter_upt_single)

lemma where_eq_none:
  assumes "\<forall>j<length a. a ! j \<noteq> v"
  shows "where_eq a v = []"
proof -
  have "set (where_eq a v) = {}" unfolding where_eq_def using assms by auto
  then show ?thesis by simp
qed

text \<open>
  With no match the lookup of \<open>plot_map\<close> fails with the assertion error that reports
  the requested altitude and the calibration altitudes in kilometres; when index \<open>i\<close> is
  the only match it passes on the grids stored at \<open>i\<close>.
\<close>

lemma plot_map_alt_lookup:
  "((\<forall>j<length alts. to_km (alts ! j) \<noteq> alt) \<longrightarrow>
      plot_map_alt alts alt lons lats = Inl (AssertionError alt (map to_km alts)))
   \<and> (i < length alts \<and> to_km (alts ! i) = alt
          \<and> (\<forall>j<length alts. to_km (alts ! j) = alt \<longrightarrow> j = i)
          \<and> length lats = length alts \<and> length lons = length alts \<longrightarrow>
        where_eq (map to_km alts) alt = [i]
        \<and> plot_map_alt alts alt lons lats = Inr (lons ! i, lats ! i))"
proof (intro conjI impI)
  assume z: "\<forall>j<length alts. to_km (alts ! j) \<noteq> alt"
  have "alt \<notin> set (map to_km alts)" using z by (auto simp: in_set_conv_nth)
  then show "plot_map_alt alts alt lons lats = Inl (AssertionError alt (map to_km alts))"
    by (simp add: plot_map_alt_def Let_def)
next
  assume a: "i < length alts \<and> to_km (alts ! i) = alt
          \<and> (\<forall>j<length alts. to_km (alts ! j) = alt \<longrightarrow> j = i)
          \<and> length lats = length alts \<and> length lons = length alts"
  from a have i: "i < length alts" by (rule conjunct1)
  from a have e: "to_km (alts ! i) = alt" by blast
  from a have el: "length lats = length alts" "length lons = length alts" by blast+
  from i el have len: "i < length lats" "i < length lons" by simp_all
  have m: "map to_km alts ! i = alt" using i e by simp
  from a have q: "\<forall>j<length alts. to_km (alts ! j) = alt \<longrightarrow> j = i" by blast
  have u: "\<forall>j<length (map to_km alts). map to_km alts ! j = alt \<longrightarrow> j = i"
  proof (intro allI impI)
    fix j assume "j < length (map to_km alts)" and "map to_km alts ! j = alt"
    then have "j < length alts \<and> to_km (alts ! j) = alt" by simp
    then show "j = i" using q by blast
  qed
  have li: "i < length (map to_km alts)" using i by simp
  show w: "where_eq (map to_km alts) alt = [i]"
    using li m u by (rule where_eq_single)
  have "alt \<in> set (map to_km alts)" using li m by (metis nth_mem)
  then show "plot_map_alt alts alt lons lats = Inr (lons ! i, lats ! i)"
    using len by (simp add: plot_map_alt_def Let_def w)
qed

lemma plot_map_alt_lookup_example:
  "plot_map_alt [90000, 110000, 130000] 111 [[[Fin 4]], [[Fin 5]], [[Fin 6]]]
     [[[Fin 1]], [[Fin 2]], [[Fin 3]]] = Inl (AssertionError 111 [90, 110, 130])
   \<and> plot_map_alt [90000, 110000, 130000] 110 [[[Fin 4]], [[Fin 5]], [[Fin 6]]]
       [[[Fin 1]], [[Fin 2]], [[Fin 3]]] = Inr ([[Fin 5]], [[Fin 2]])"
  by (simp add: plot_map_alt_def where_eq_def to_km_def upt_conv_Cons)

text \<open>
  C4. With the calibration altitudes 110000 m and 110000 m, both of which match a
  requested altitude of 110 km, the lookup of \<open>plot_map\<close> raises no error: it passes on
  the grids stored at index 0, the first of the two matches.
\<close>

theorem plot_map_alt_duplicate:
  "where_eq (map to_km [110000, 110000]) 110 = [0, 1]
   \<and> plot_map_alt [110000, 110000] 110 [[[Fin 1]], [[Fin 2]]] [[[Fin 3]], [[Fin 4]]] =
       Inr ([[Fin 1]], [[Fin 3]])"
  by (simp add: plot_map_alt_def where_eq_def to_km_def upt_conv_Cons)

section \<open>Colour map selection\<close>

text \<open>
  C7. With a colour map other than \<open>auto\<close>, here \<open>viridis\<close> for the mission THEMIS, the
  selection of \<open>plot_map\<close> raises the error of an unsupported mission.
\<close>

theorem select_color_map_viridis:
  "select_color_map ''viridis'' ''THEMIS'' =
     Inl (NotImplementedError
            (''color_map == '' @ [CHR 0x22] @ ''auto'' @ [CHR 0x22] @
             '' but the mission is unsupported''))"
  by (simp add: select_color_map_def)

text \<open>Under \<open>auto\<close> the two missions get their palettes, in any letter case.\<close>

lemma select_color_map_auto:
  "select_color_map ''auto'' ''Themis'' = Inr (Name ''Greys_r'')"
  "select_color_map ''auto'' ''REGO'' = Inr (LinearSegmented ''black_to_red'' [''k'', ''r''])"
  by code_simp+

lemma select_color_map_not_auto:
  "color_map \<noteq> ''auto'' \<Longrightarrow> \<exists>msg. select_color_map color_map mission = Inl (NotImplementedError msg)"
  by (simp add: select_color_map_def)

section \<open>The compressor on one valid row\<close>

text \<open>
  C1. On the grids of three rows whose middle row alone is valid, with longitudes 1, 2, 3
  and latitudes 4, 5, 6, the compressor returns grids in which every entry, the valid
  row included, is the maximum of that row: 3 and 6.
\<close>

theorem pcolormesh_nan_single_row:
  "pcolormesh_nan
     [[NaN, NaN, NaN], [Fin 1, Fin 2, Fin 3], [NaN, NaN, NaN]]
     [[NaN, NaN, NaN], [Fin 4, Fin 5, Fin 6], [NaN, NaN, NaN]] =
   Inr ([[Fin 3, Fin 3, Fin 3], [Fin 3, Fin 3, Fin 3], [Fin 3, Fin 3, Fin 3]],
        [[Fin 6, Fin 6, Fin 6], [Fin 6, Fin 6, Fin 6], [Fin 6, Fin 6, Fin 6]])"
  by code_simp

section \<open>Rows and masks\<close>

lemma shape_length: "shape h w g \<Longrightarrow> length g = h"
  by (simp add: shape_def)

lemma shape_row: "shape h w g \<Longrightarrow> i < h \<Longrightarrow> length (g ! i) = w"
  by (simp add: shape_def list_all_length)

lemma shapeI: "length g = h \<Longrightarrow> (\<And>i. i < h \<Longrightarrow> length (g ! i) = w) \<Longrightarrow> shape h w g"
  by (simp add: shape_def list_all_length)

lemma mask_length: "length x = length y \<Longrightarrow> length (mask x y) = length x"
  by (simp add: mask_def)

lemma mask_row:
  "i < length x \<Longrightarrow> i < length y \<Longrightarrow>
   mask x y ! i = map2 (\<lambda>a b. isfinite a \<and> isfinite b) (x ! i) (y ! i)"
  by (simp add: mask_def)

lemma mask_shape: "shape h w x \<Longrightarrow> shape h w y \<Longrightarrow> shape h w (mask x y)"
  by (rule shapeI) (simp_all add: mask_def shape_length shape_row)

lemma mask_nth:
  "shape h w x \<Longrightarrow> shape h w y \<Longrightarrow> i < h \<Longrightarrow> j < w \<Longrightarrow> mask x y ! i ! j = valid_at x y i j"
  by (simp add: mask_row shape_length shape_row valid_at_def)

lemma set_nonzero: "set (nonzero m) = {j. j < length m \<and> m ! j}"
  by (auto simp: nonzero_def)

lemma sorted_nonzero: "sorted (nonzero m)"
  by (simp add: nonzero_def sorted_wrt_filter)

lemma nonzero_hd:
  assumes "nonzero m \<noteq> []"
  shows "hd (nonzero m) < length m" "m ! hd (nonzero m)" "\<And>j. j < length m \<Longrightarrow> m ! j \<Longrightarrow> hd (nonzero m) \<le> j"
proof -
  have "hd (nonzero m) \<in> set (nonzero m)" using assms by simp
  then show "hd (nonzero m) < length m" "m ! hd (nonzero m)" by (simp_all add: set_nonzero)
  fix j assume "j < length m" "m ! j"
  then have "j \<in> set (nonzero m)" by (simp add: set_nonzero)
  then show "hd (nonzero m) \<le> j"
    using sorted_nonzero[of m] assms by (cases "nonzero m") auto
qed

lemma nonzero_last:
  assumes "nonzero m \<noteq> []"
  shows "last (nonzero m) < length m" "m ! last (nonzero m)" "\<And>j. j < length m \<Longrightarrow> m ! j \<Longrightarrow> j \<le> last (nonzero m)"
proof -
  have "last (nonzero m) \<in> set (nonzero m)" using assms by simp
  then show "last (nonzero m) < length m" "m ! last (nonzero m)" by (simp_all add: set_nonzero)
  fix j assume "j < length m" "m ! j"
  then have j: "j \<in> set (nonzero m)" by (simp add: set_nonzero)
  obtain ys z where yz: "nonzero m = ys @ [z]" using assms by (cases "nonzero m" rule: rev_cases) auto
  with sorted_nonzero[of m] have "\<forall>a\<in>set ys. a \<le> z" by (simp add: sorted_append)
  with j yz show "j \<le> last (nonzero m)" by auto
qed

lemma nonzero_hd_le_last: "nonzero m \<noteq> [] \<Longrightarrow> hd (nonzero m) \<le> last (nonzero m)"
  using nonzero_hd(3)[of m "last (nonzero m)"] nonzero_last(1,2)[of m] by blast

lemma nonzero_empty: "(nonzero m = []) = (\<forall>j<length m. \<not> m ! j)"
proof -
  have "(nonzero m = []) = (set (nonzero m) = {})" by simp
  also have "\<dots> = (\<forall>j<length m. \<not> m ! j)" unfolding set_nonzero by blast
  finally show ?thesis .
qed

lemma length_row_from: "k < length r \<Longrightarrow> length (row_from k r) = length r"
  by (simp add: row_from_def)

lemma length_row_upto: "k < length r \<Longrightarrow> length (row_upto k r) = length r"
  by (simp add: row_upto_def)

lemma nth_row_from:
  "k < length r \<Longrightarrow> j < length r \<Longrightarrow> row_from k r ! j = (if j < k then r ! j else r ! k)"
  by (simp add: row_from_def nth_append)

lemma nth_row_upto:
  "k < length r \<Longrightarrow> j < length r \<Longrightarrow> row_upto k r ! j = (if j < k then r ! k else r ! j)"
  by (simp add: row_upto_def nth_append)

lemma length_row_fix: "length m = length r \<Longrightarrow> length (row_fix m r) = length r"
  using nonzero_hd(1)[of m] nonzero_last(1)[of m]
  by (simp add: row_fix_def Let_def length_row_from length_row_upto)

lemma nth_row_fix:
  assumes "length m = length r" "j < length r"
  shows "row_fix m r ! j =
     (if nonzero m = [] then r ! j
      else if j < hd (nonzero m) then r ! hd (nonzero m)
      else if last (nonzero m) < j then r ! last (nonzero m)
      else r ! j)"
proof (cases "nonzero m = []")
  case True
  then show ?thesis by (simp add: row_fix_def)
next
  case False
  note h = nonzero_hd(1)[OF False] nonzero_last(1)[OF False] nonzero_hd_le_last[OF False]
  have "row_fix m r ! j = row_upto (hd (nonzero m)) (row_from (last (nonzero m)) r) ! j"
    using False by (simp add: row_fix_def Let_def)
  also have "\<dots> = (if j < hd (nonzero m) then row_from (last (nonzero m)) r ! hd (nonzero m)
                       else row_from (last (nonzero m)) r ! j)"
    using h assms by (simp add: nth_row_upto length_row_from)
  finally show ?thesis using h assms False by (auto simp: nth_row_from)
qed

lemma row_fix_none: "nonzero m = [] \<Longrightarrow> row_fix m r = r"
  by (simp add: row_fix_def)

section \<open>The loop over the rows\<close>

lemma assign_row_fix:
  assumes "nonzero m \<noteq> []" "i < length x"
  shows "assign_upto i (hd (nonzero m)) (assign_from i (last (nonzero m)) x) = x[i := row_fix m (x ! i)]"
  using assms by (simp add: assign_upto_def assign_from_def row_fix_def Let_def)

lemma take_Suc_update: "i < length x \<Longrightarrow> take (Suc i) (x[i := v]) = take i x @ [v]"
  by (simp add: take_Suc_conv_app_nth)

lemma rows_loop_grids:
  "length x = i + length ms \<Longrightarrow> length y = i + length ms \<Longrightarrow>
   rows_loop i ms x y tp bt =
     (take i x @ map2 row_fix ms (drop i x), take i y @ map2 row_fix ms (drop i y),
      (case tp of None \<Rightarrow> top_of (valid_rows i ms) | Some t \<Rightarrow> Some t),
      (case tp of
         None \<Rightarrow> (if bottom_of (valid_rows i ms) = None then bt else bottom_of (valid_rows i ms))
       | Some t \<Rightarrow> (if valid_rows i ms = [] then bt else Some (last (valid_rows i ms)))))"
proof (induction ms arbitrary: i x y tp bt)
  case Nil
  then show ?case by (simp add: top_of_def bottom_of_def split: option.splits)
next
  case (Cons m ms)
  have i: "i < length x" "i < length y" using Cons.prems by simp_all
  have dx: "drop i x = x ! i # drop (Suc i) x" and dy: "drop i y = y ! i # drop (Suc i) y"
    using i by (simp_all add: Cons_nth_drop_Suc)
  show ?case
  proof (cases "nonzero m = []")
    case True
    have "rows_loop i (m # ms) x y tp bt = rows_loop (Suc i) ms x y tp bt"
      using True by simp
    also have "\<dots> = (take (Suc i) x @ map2 row_fix ms (drop (Suc i) x),
        take (Suc i) y @ map2 row_fix ms (drop (Suc i) y),
        (case tp of None \<Rightarrow> top_of (valid_rows (Suc i) ms) | Some t \<Rightarrow> Some t),
        (case tp of
           None \<Rightarrow> (if bottom_of (valid_rows (Suc i) ms) = None then bt else bottom_of (valid_rows (Suc i) ms))
         | Some t \<Rightarrow> (if valid_rows (Suc i) ms = [] then bt else Some (last (valid_rows (Suc i) ms)))))"
      by (rule Cons.IH) (use Cons.prems in simp_all)
    finally show ?thesis
      using True i by (cases tp) (simp_all add: dx dy take_Suc_conv_app_nth row_fix_none)
  next
    case False
    let ?x = "x[i := row_fix m (x ! i)]" and ?y = "y[i := row_fix m (y ! i)]"
    let ?tp = "if tp = None then Some i else tp"
    let ?bt = "if tp = None then bt else Some i"
    have "rows_loop i (m # ms) x y tp bt = rows_loop (Suc i) ms ?x ?y ?tp ?bt"
      using False i by (simp add: Let_def assign_row_fix)
    also have "\<dots> = (take (Suc i) ?x @ map2 row_fix ms (drop (Suc i) ?x),
        take (Suc i) ?y @ map2 row_fix ms (drop (Suc i) ?y),
        (case ?tp of None \<Rightarrow> top_of (valid_rows (Suc i) ms) | Some t \<Rightarrow> Some t),
        (case ?tp of
           None \<Rightarrow> (if bottom_of (valid_rows (Suc i) ms) = None then ?bt else bottom_of (valid_rows (Suc i) ms))
         | Some t \<Rightarrow> (if valid_rows (Suc i) ms = [] then ?bt else Some (last (valid_rows (Suc i) ms)))))"
      by (rule Cons.IH) (use Cons.prems in simp_all)
    finally show ?thesis
      using False i
      by (cases tp) (simp_all add: dx dy take_Suc_update top_of_def bottom_of_def)
  qed
qed

lemma rows_loop_mask:
  assumes "shape h w x" "shape h w y"
  shows "rows_loop 0 (mask x y) x y None None =
     (map2 row_fix (mask x y) x, map2 row_fix (mask x y) y,
      top_of (valid_rows 0 (mask x y)), bottom_of (valid_rows 0 (mask x y)))"
proof -
  have "length x = 0 + length (mask x y)" "length y = 0 + length (mask x y)"
    using assms by (simp_all add: mask_def shape_length)
  then show ?thesis by (simp add: rows_loop_grids)
qed

lemma set_valid_rows:
  "set (valid_rows i ms) = {k. i \<le> k \<and> k < i + length ms \<and> nonzero (ms ! (k - i)) \<noteq> []}"
proof (induction ms arbitrary: i)
  case Nil
  then show ?case by simp
next
  case (Cons m ms)
  have a: "\<And>k. Suc i \<le> k \<Longrightarrow> (m # ms) ! (k - i) = ms ! (k - Suc i)"
    by (simp add: nth_Cons')
  show ?case
  proof (rule set_eqI)
    fix k
    show "k \<in> set (valid_rows i (m # ms)) \<longleftrightarrow>
          k \<in> {k. i \<le> k \<and> k < i + length (m # ms) \<and> nonzero ((m # ms) ! (k - i)) \<noteq> []}"
    proof (cases "k = i")
      case True
      then show ?thesis by (auto simp: Cons.IH)
    next
      case False
      then show ?thesis using a[of k] by (auto simp: Cons.IH)
    qed
  qed
qed

lemma valid_rows_lower: "k \<in> set (valid_rows i ms) \<Longrightarrow> i \<le> k"
  by (simp add: set_valid_rows)

lemma sorted_valid_rows: "sorted_wrt (<) (valid_rows i ms)"
proof (induction ms arbitrary: i)
  case Nil
  then show ?case by simp
next
  case (Cons m ms)
  have "\<forall>k\<in>set (valid_rows (Suc i) ms). i < k"
    by (simp add: set_valid_rows)
  then show ?case using Cons.IH[of "Suc i"] by simp
qed

section \<open>Grids without a valid entry\<close>

lemma fmax_idem: "fmax a a = a"
  by (cases a) simp_all

lemma foldl_fmax_replicate: "foldl fmax a (replicate n a) = a"
  by (induction n) (simp_all add: fmax_idem)

lemma nanmax_foldl: "r \<noteq> [] \<Longrightarrow> nanmax r = Inr (foldl fmax NaN r)"
  by (cases r) simp_all

lemma nanmax_replicate: "0 < n \<Longrightarrow> nanmax (replicate n v) = Inr v"
  by (cases n) (simp_all add: foldl_fmax_replicate)

lemma concat_replicate_replicate: "concat (replicate h (replicate w v)) = replicate (h * w) v"
  by (induction h) (simp_all add: replicate_add)

lemma nanmax_fill: "0 < h \<Longrightarrow> 0 < w \<Longrightarrow> nanmax (concat (replicate h (replicate w v))) = Inr v"
  by (simp add: concat_replicate_replicate nanmax_replicate)

lemma fmax_finite:
  "b \<noteq> PInf \<Longrightarrow> b \<noteq> NInf \<Longrightarrow> isfinite (fmax (Fin a) b)"
  by (cases b) simp_all

lemma foldl_fmax_finite:
  "\<forall>v\<in>set r. v \<noteq> PInf \<and> v \<noteq> NInf \<Longrightarrow>
   isfinite a \<or> (a = NaN \<and> (\<exists>v\<in>set r. isfinite v)) \<Longrightarrow> isfinite (foldl fmax a r)"
proof (induction r arbitrary: a)
  case Nil
  then show ?case by auto
next
  case (Cons v r)
  from Cons.prems(1) have v: "v \<noteq> PInf" "v \<noteq> NInf" and r: "\<forall>v\<in>set r. v \<noteq> PInf \<and> v \<noteq> NInf"
    by simp_all
  have "isfinite (fmax a v) \<or> (fmax a v = NaN \<and> (\<exists>u\<in>set r. isfinite u))"
  proof (cases a)
    case NaN
    with Cons.prems(2) have "isfinite v \<or> (\<exists>u\<in>set r. isfinite u)" by auto
    with NaN v show ?thesis by (cases v) auto
  next
    case (Fin c)
    with v show ?thesis by (simp add: fmax_finite)
  qed (use Cons.prems(2) in auto)
  with r show ?case by (simp add: Cons.IH)
qed

lemma nanmax_finite:
  assumes "\<forall>v\<in>set r. v \<noteq> PInf \<and> v \<noteq> NInf" "\<exists>v\<in>set r. isfinite v"
  shows "\<exists>v. nanmax r = Inr v \<and> isfinite v"
proof -
  from assms(2) have "r \<noteq> []" by auto
  then have "nanmax r = Inr (foldl fmax NaN r)" by (rule nanmax_foldl)
  moreover have "isfinite (foldl fmax NaN r)" using assms by (intro foldl_fmax_finite) auto
  ultimately show ?thesis by blast
qed

lemma map_fill_row: "shape h w g \<Longrightarrow> map (fill_row v) g = replicate h (replicate w v)"
  by (rule nth_equalityI) (simp_all add: shape_length shape_row fill_row_def)

lemma shape_replicate: "shape h w (replicate h (replicate w v))"
  by (simp add: shape_def list_all_length)

lemma map2_row_fix_id:
  assumes "length ms = length x" "\<And>k. k < length x \<Longrightarrow> row_fix (ms ! k) (x ! k) = x ! k"
  shows "map2 row_fix ms x = x"
  using assms by (intro nth_equalityI) simp_all

lemma valid_rows_none: "(\<And>k. k < length ms \<Longrightarrow> nonzero (ms ! k) = []) \<Longrightarrow> valid_rows i ms = []"
proof -
  assume a: "\<And>k. k < length ms \<Longrightarrow> nonzero (ms ! k) = []"
  have "set (valid_rows i ms) = {}" unfolding set_valid_rows using a by auto
  then show ?thesis by simp
qed

lemma concat_nonempty:
  assumes "shape h w g" "0 < h" "0 < w"
  shows "concat g \<noteq> []"
proof -
  have "g ! 0 \<in> set g" using assms by (simp add: shape_length)
  moreover have "length (g ! 0) = w" using assms by (simp add: shape_row)
  ultimately show ?thesis using assms(3) by auto
qed

lemma concat_empty:
  assumes "shape h w g" "h = 0 \<or> w = 0"
  shows "concat g = []"
  using assms by (auto simp: shape_def list_all_iff)

lemma mask_row_invalid:
  assumes "shape h w x" "shape h w y" "i < h" "\<forall>j<w. \<not> valid_at x y i j"
  shows "nonzero (mask x y ! i) = []"
proof -
  have l: "length (mask x y ! i) = w" using assms by (simp add: shape_row[OF mask_shape])
  show ?thesis unfolding nonzero_empty l using assms by (simp add: mask_nth)
qed

text \<open>
  On grids of one common shape without any valid entry the assignments raise nothing
  when the grids have a row and a column: every entry of the longitude grid becomes the
  \<open>np.nanmax\<close> of the whole longitude grid, and likewise for the latitudes. Grids
  without rows or without columns fail, with the \<open>ValueError\<close> of \<open>np.nanmax\<close> on a
  zero-size array.
\<close>

lemma no_valid_entry_grids:
  assumes "shape h w x" "shape h w y" "\<forall>i<h. \<forall>j<w. \<not> valid_at x y i j"
  shows "(0 < h \<and> 0 < w \<longrightarrow>
           (\<exists>vx vy. nanmax (concat x) = Inr vx \<and> nanmax (concat y) = Inr vy \<and>
              pcolormesh_nan x y = Inr (replicate h (replicate w vx), replicate h (replicate w vy))))
       \<and> (h = 0 \<or> w = 0 \<longrightarrow> pcolormesh_nan x y = Inl ValueError)"
proof -
  let ?M = "mask x y"
  have lm: "length ?M = h" using assms by (simp add: shape_length[OF mask_shape])
  have nz: "\<And>k. k < length ?M \<Longrightarrow> nonzero (?M ! k) = []"
    using assms lm by (simp add: mask_row_invalid)
  have vr: "valid_rows 0 ?M = []" using nz by (rule valid_rows_none)
  have fx: "map2 row_fix ?M x = x"
    by (rule map2_row_fix_id) (use assms(1) lm nz in \<open>simp_all add: shape_length row_fix_none\<close>)
  have fy: "map2 row_fix ?M y = y"
    by (rule map2_row_fix_id) (use assms(2) lm nz in \<open>simp_all add: shape_length row_fix_none\<close>)
  have loop: "rows_loop 0 ?M x y None None = (x, y, None, None)"
    using rows_loop_mask[OF assms(1,2)] by (simp add: vr fx fy top_of_def bottom_of_def)
  show ?thesis
  proof (intro conjI impI)
    assume pos: "0 < h \<and> 0 < w"
    let ?vx = "foldl fmax NaN (concat x)" and ?vy = "foldl fmax NaN (concat y)"
    from pos have h: "0 < h" and w: "0 < w" by simp_all
    have nx: "nanmax (concat x) = Inr ?vx"
      by (rule nanmax_foldl[OF concat_nonempty[OF assms(1) h w]])
    have ny: "nanmax (concat y) = Inr ?vy"
      by (rule nanmax_foldl[OF concat_nonempty[OF assms(2) h w]])
    have "pcolormesh_nan x y = Inr (replicate h (replicate w ?vx), replicate h (replicate w ?vy))"
      using pos assms(1,2)
      by (simp add: pcolormesh_nan_def loop row_sel_def nx ny assign_rows_before_def
          assign_rows_from_def map_fill_row[OF assms(1)] map_fill_row[OF assms(2)]
          fill_row_def nanmax_fill)
    with nx ny show "\<exists>vx vy. nanmax (concat x) = Inr vx \<and> nanmax (concat y) = Inr vy \<and>
              pcolormesh_nan x y = Inr (replicate h (replicate w vx), replicate h (replicate w vy))"
      by blast
  next
    assume "h = 0 \<or> w = 0"
    then have "concat x = []" using assms(1) by (intro concat_empty)
    then have "nanmax (row_sel None x) = Inl ValueError" by (simp only: row_sel_def option.case nanmax.simps)
    then show "pcolormesh_nan x y = Inl ValueError"
      by (simp add: pcolormesh_nan_def loop)
  qed
qed

lemma uniform_grid_finite:
  "0 < h \<Longrightarrow> 0 < w \<Longrightarrow> list_all (list_all isfinite) (replicate h (replicate w v)) = isfinite v"
  by (auto simp: list_all_iff)

lemma ax_pcolormesh_uniform:
  "0 < h \<Longrightarrow> 0 < w \<Longrightarrow>
   ax_pcolormesh (replicate h (replicate w vx)) (replicate h (replicate w vy)) =
     (if isfinite vx \<and> isfinite vy then None else Some ValueError)"
  by (simp add: ax_pcolormesh_def uniform_grid_finite)

text \<open>
  C2, as amended. On grids of one common shape without any valid entry, a call of the
  compressor ends in an error exactly in these cases: on grids without rows or without
  columns, with the \<open>ValueError\<close> of \<open>np.nanmax\<close> on a zero-size array; and when the
  \<open>np.nanmax\<close> of the whole longitude grid or of the whole latitude grid is not finite,
  with the \<open>ValueError\<close> of the rendering call. When both maxima are finite the call
  returns, and every entry of the longitude grid is then the maximum of the longitudes
  and every entry of the latitude grid the maximum of the latitudes.
\<close>

theorem pcolormesh_nan_call_no_valid:
  assumes "shape h w x" "shape h w y" "\<forall>i<h. \<forall>j<w. \<not> valid_at x y i j"
  shows "(h = 0 \<or> w = 0 \<longrightarrow> pcolormesh_nan_call x y = Inl ValueError)
       \<and> (0 < h \<and> 0 < w \<longrightarrow>
           (\<exists>vx vy. nanmax (concat x) = Inr vx \<and> nanmax (concat y) = Inr vy \<and>
              pcolormesh_nan_call x y =
                (if isfinite vx \<and> isfinite vy
                 then Inr (replicate h (replicate w vx), replicate h (replicate w vy))
                 else Inl ValueError)))"
proof (intro conjI impI)
  assume "h = 0 \<or> w = 0"
  then have "pcolormesh_nan x y = Inl ValueError"
    using no_valid_entry_grids[OF assms] by blast
  then show "pcolormesh_nan_call x y = Inl ValueError"
    by (simp add: pcolormesh_nan_call_def)
next
  assume pos: "0 < h \<and> 0 < w"
  then obtain vx vy where n: "nanmax (concat x) = Inr vx" "nanmax (concat y) = Inr vy"
    and p: "pcolormesh_nan x y = Inr (replicate h (replicate w vx), replicate h (replicate w vy))"
    using no_valid_entry_grids[OF assms] by blast
  from pos have a: "ax_pcolormesh (replicate h (replicate w vx)) (replicate h (replicate w vy)) =
     (if isfinite vx \<and> isfinite vy then None else Some ValueError)"
    by (simp add: ax_pcolormesh_uniform)
  have "pcolormesh_nan_call x y =
                (if isfinite vx \<and> isfinite vy
                 then Inr (replicate h (replicate w vx), replicate h (replicate w vy))
                 else Inl ValueError)"
    by (simp add: pcolormesh_nan_call_def p a)
  with n show "\<exists>vx vy. nanmax (concat x) = Inr vx \<and> nanmax (concat y) = Inr vy \<and>
              pcolormesh_nan_call x y =
                (if isfinite vx \<and> isfinite vy
                 then Inr (replicate h (replicate w vx), replicate h (replicate w vy))
                 else Inl ValueError)"
    by blast
qed

section \<open>The assignments after the loop\<close>

lemma pcolormesh_nan_finish:
  assumes "rows_loop 0 (mask x y) x y None None = (x1, y1, tp, bt)"
    and "nanmax (row_sel tp x1) = Inr vx"
    and "nanmax (row_sel tp y1) = Inr vy"
    and "nanmax (row_sel bt (assign_rows_before tp vx x1)) = Inr wx"
    and "nanmax (row_sel bt (assign_rows_before tp vy y1)) = Inr wy"
  shows "pcolormesh_nan x y =
     Inr (assign_rows_from bt wx (assign_rows_before tp vx x1),
          assign_rows_from bt wy (assign_rows_before tp vy y1))"
  using assms by (simp add: pcolormesh_nan_def)

lemma shape_rows_before:
  "shape h w g \<Longrightarrow> shape h w (assign_rows_before k v g)"
proof (rule shapeI)
  assume s: "shape h w g"
  show "length (assign_rows_before k v g) = h"
    using s by (cases k) (simp_all add: assign_rows_before_def shape_length)
  fix i assume "i < h"
  then show "length (assign_rows_before k v g ! i) = w"
    using s by (cases k) (simp_all add: assign_rows_before_def shape_length shape_row nth_append fill_row_def)
qed

lemma shape_rows_from:
  "shape h w g \<Longrightarrow> shape h w (assign_rows_from k v g)"
proof (rule shapeI)
  assume s: "shape h w g"
  show "length (assign_rows_from k v g) = h"
    using s by (cases k) (simp_all add: assign_rows_from_def shape_length)
  fix i assume "i < h"
  then show "length (assign_rows_from k v g ! i) = w"
    using s by (cases k) (simp_all add: assign_rows_from_def shape_length shape_row nth_append fill_row_def)
qed

lemma nth_rows_before:
  "shape h w g \<Longrightarrow> i < h \<Longrightarrow>
   assign_rows_before (Some t) v g ! i = (if i < t then replicate w v else g ! i)"
  by (simp add: assign_rows_before_def shape_length shape_row nth_append fill_row_def)

lemma nth_rows_from:
  "shape h w g \<Longrightarrow> i < h \<Longrightarrow>
   assign_rows_from (Some b) v g ! i = (if b \<le> i then replicate w v else g ! i)"
  by (simp add: assign_rows_from_def shape_length shape_row nth_append fill_row_def)

lemma rows_from_None:
  "shape h w g \<Longrightarrow> assign_rows_from None v g = replicate h (replicate w v)"
  by (simp add: assign_rows_from_def map_fill_row)

lemma nanmax_row:
  "shape h w g \<Longrightarrow> i < h \<Longrightarrow> 0 < w \<Longrightarrow> nanmax (g ! i) = Inr (foldl fmax NaN (g ! i))"
  by (rule nanmax_foldl) (use shape_row[of h w g i] in auto)

lemma shape_row_fix:
  assumes "shape h w x" "shape h w m"
  shows "shape h w (map2 row_fix m x)"
  using assms by (intro shapeI) (simp_all add: shape_length shape_row length_row_fix)

lemma nth_map2_row_fix:
  "shape h w x \<Longrightarrow> shape h w m \<Longrightarrow> i < h \<Longrightarrow> map2 row_fix m x ! i = row_fix (m ! i) (x ! i)"
  by (simp add: shape_length)

text \<open>What is known of the list of valid rows.\<close>

lemma valid_rows_mask:
  assumes "shape h w x" "shape h w y"
  shows "set (valid_rows 0 (mask x y)) = {k. k < h \<and> nonzero (mask x y ! k) \<noteq> []}"
  using assms by (simp add: set_valid_rows shape_length[OF mask_shape])

lemma sorted_hd_min: "sorted_wrt (<) vs \<Longrightarrow> k \<in> set vs \<Longrightarrow> hd vs \<le> (k::nat)"
  by (cases vs) auto

lemma sorted_last_max: "sorted_wrt (<) vs \<Longrightarrow> k \<in> set vs \<Longrightarrow> (k::nat) \<le> last vs"
proof (induction vs)
  case Nil
  then show ?case by simp
next
  case (Cons a vs)
  then show ?case by (cases "vs = []") (auto simp: less_imp_le)
qed

lemma bottom_of_None: "(bottom_of vs = None) = (length vs \<le> 1)"
  by (cases vs) (simp_all add: bottom_of_def)

lemma bottom_of_Some:
  assumes "bottom_of vs = Some b" "sorted_wrt (<) vs"
  shows "b = last vs" "b \<in> set vs" "hd vs < b"
proof -
  from assms(1) obtain t rest where v: "vs = t # rest" "rest \<noteq> []" "b = last rest"
    by (cases vs) (auto simp: bottom_of_def split: if_splits)
  then show "b = last vs" by simp
  from v show "b \<in> set vs" by simp
  from v have "last rest \<in> set rest" by simp
  with assms(2) v show "hd vs < b" by auto
qed

lemma top_of_hd: "vs \<noteq> [] \<Longrightarrow> top_of vs = Some (hd vs)"
  by (cases vs) (simp_all add: top_of_def)

lemma valid_row_width:
  assumes "shape h w m" "k < h" "nonzero (m ! k) \<noteq> []"
  shows "0 < w"
  using nonzero_hd(1)[OF assms(3)] shape_row[OF assms(1,2)] by simp

lemma pcolormesh_nan_valid:
  fixes x y :: grid
  defines "M \<equiv> mask x y"
  defines "vs \<equiv> valid_rows 0 M"
  defines "x1 \<equiv> map2 row_fix M x" and "y1 \<equiv> map2 row_fix M y"
  defines "x2 \<equiv> assign_rows_before (Some (hd vs)) (foldl fmax NaN (x1 ! hd vs)) x1"
    and "y2 \<equiv> assign_rows_before (Some (hd vs)) (foldl fmax NaN (y1 ! hd vs)) y1"
  assumes sx: "shape h w x" and sy: "shape h w y" and ne: "vs \<noteq> []"
  shows "pcolormesh_nan x y =
     (case bottom_of vs of
        None \<Rightarrow> Inr (replicate h (replicate w (foldl fmax NaN (concat x2))),
                    replicate h (replicate w (foldl fmax NaN (concat y2))))
      | Some b \<Rightarrow> Inr (assign_rows_from (Some b) (foldl fmax NaN (x1 ! b)) x2,
                      assign_rows_from (Some b) (foldl fmax NaN (y1 ! b)) y2))"
proof -
  let ?t = "hd vs"
  have sm: "shape h w M" unfolding M_def using sx sy by (rule mask_shape)
  have loop: "rows_loop 0 (mask x y) x y None None = (x1, y1, Some ?t, bottom_of vs)"
    using rows_loop_mask[OF sx sy] ne by (simp add: x1_def y1_def M_def vs_def top_of_hd)
  have setvs: "set vs = {k. k < h \<and> nonzero (M ! k) \<noteq> []}"
    unfolding vs_def M_def using sx sy by (rule valid_rows_mask)
  have srt: "sorted_wrt (<) vs" unfolding vs_def by (rule sorted_valid_rows)
  have "?t \<in> set vs" using ne by simp
  then have t: "?t < h" and tv: "nonzero (M ! ?t) \<noteq> []" by (simp_all add: setvs)
  have w: "0 < w" using sm t tv by (rule valid_row_width)
  have h: "0 < h" using t by simp
  have s1: "shape h w x1" "shape h w y1"
    unfolding x1_def y1_def using sx sy sm by (simp_all add: shape_row_fix)
  have s2: "shape h w x2" "shape h w y2"
    unfolding x2_def y2_def using s1 by (simp_all add: shape_rows_before)
  have n1: "nanmax (row_sel (Some ?t) x1) = Inr (foldl fmax NaN (x1 ! ?t))"
    "nanmax (row_sel (Some ?t) y1) = Inr (foldl fmax NaN (y1 ! ?t))"
    using s1 t w by (simp_all add: row_sel_def nanmax_row)
  show ?thesis
  proof (cases "bottom_of vs")
    case None
    have n2: "nanmax (row_sel None x2) = Inr (foldl fmax NaN (concat x2))"
      "nanmax (row_sel None y2) = Inr (foldl fmax NaN (concat y2))"
      using concat_nonempty[OF s2(1) h w] concat_nonempty[OF s2(2) h w]
      by (simp_all add: row_sel_def nanmax_foldl)
    have "pcolormesh_nan x y =
      Inr (assign_rows_from None (foldl fmax NaN (concat x2)) x2,
           assign_rows_from None (foldl fmax NaN (concat y2)) y2)"
      unfolding x2_def y2_def
      by (rule pcolormesh_nan_finish[OF loop[unfolded None] n1 n2[unfolded x2_def y2_def]])
    then show ?thesis using None s2 by (simp add: rows_from_None)
  next
    case (Some b)
    note bs = bottom_of_Some[OF Some srt]
    from bs(2) have b: "b < h" by (simp add: setvs)
    have e: "x2 ! b = x1 ! b" "y2 ! b = y1 ! b"
      unfolding x2_def y2_def using s1 b bs(3) by (simp_all add: nth_rows_before)
    have n2: "nanmax (row_sel (Some b) x2) = Inr (foldl fmax NaN (x1 ! b))"
      "nanmax (row_sel (Some b) y2) = Inr (foldl fmax NaN (y1 ! b))"
      using s1 b w by (simp_all add: row_sel_def e nanmax_row)
    have "pcolormesh_nan x y =
      Inr (assign_rows_from (Some b) (foldl fmax NaN (x1 ! b)) x2,
           assign_rows_from (Some b) (foldl fmax NaN (y1 ! b)) y2)"
      unfolding x2_def y2_def
      by (rule pcolormesh_nan_finish[OF loop[unfolded Some] n1 n2[unfolded x2_def y2_def]])
    then show ?thesis using Some by simp
  qed
qed

section \<open>Maxima of rows without infinities\<close>

lemma no_inf_nth:
  "no_inf g \<Longrightarrow> i < length g \<Longrightarrow> j < length (g ! i) \<Longrightarrow> g ! i ! j \<noteq> PInf \<and> g ! i ! j \<noteq> NInf"
  by (simp add: no_inf_def list_all_length)

lemma row_fix_entry:
  assumes "length m = length r" "j < length r"
  shows "\<exists>k<length r. row_fix m r ! j = r ! k"
proof (cases "nonzero m = []")
  case True
  then show ?thesis using assms by (auto simp: row_fix_none)
next
  case False
  note b = nonzero_hd(1)[OF False] nonzero_last(1)[OF False]
  show ?thesis using assms b by (auto simp: nth_row_fix)
qed

lemma row_fix_at_hd:
  assumes "length m = length r" "nonzero m \<noteq> []"
  shows "row_fix m r ! hd (nonzero m) = r ! hd (nonzero m)"
  using assms nonzero_hd(1)[OF assms(2)] nonzero_hd_le_last[OF assms(2)]
  by (simp add: nth_row_fix)

lemma mask_valid_at_hd:
  assumes "shape h w x" "shape h w y" "k < h" "nonzero (mask x y ! k) \<noteq> []"
  shows "hd (nonzero (mask x y ! k)) < w" "valid_at x y k (hd (nonzero (mask x y ! k)))"
proof -
  have l: "length (mask x y ! k) = w" using assms by (simp add: shape_row[OF mask_shape])
  show a: "hd (nonzero (mask x y ! k)) < w" using nonzero_hd(1)[OF assms(4)] l by simp
  show "valid_at x y k (hd (nonzero (mask x y ! k)))"
    using nonzero_hd(2)[OF assms(4)] a assms by (simp add: mask_nth)
qed

lemma mask_valid_at_last:
  assumes "shape h w x" "shape h w y" "k < h" "nonzero (mask x y ! k) \<noteq> []"
  shows "last (nonzero (mask x y ! k)) < w" "valid_at x y k (last (nonzero (mask x y ! k)))"
proof -
  have l: "length (mask x y ! k) = w" using assms by (simp add: shape_row[OF mask_shape])
  show a: "last (nonzero (mask x y ! k)) < w" using nonzero_last(1)[OF assms(4)] l by simp
  show "valid_at x y k (last (nonzero (mask x y ! k)))"
    using nonzero_last(2)[OF assms(4)] a assms by (simp add: mask_nth)
qed

lemma mask_row_valid:
  assumes "shape h w x" "shape h w y" "i < h" "j < w" "valid_at x y i j"
  shows "nonzero (mask x y ! i) \<noteq> []"
proof -
  have l: "length (mask x y ! i) = w" using assms by (simp add: shape_row[OF mask_shape])
  have "mask x y ! i ! j" using assms by (simp add: mask_nth)
  then show ?thesis unfolding nonzero_empty l using assms(4) by blast
qed

text \<open>The maximum of a fixed valid row of an array without infinities is finite.\<close>

lemma fixed_row_max_finite:
  assumes sx: "shape h w x" and sm: "shape h w m" and k: "k < h"
    and nz: "nonzero (m ! k) \<noteq> []" and ni: "no_inf x"
    and fin: "isfinite (x ! k ! hd (nonzero (m ! k)))"
  shows "isfinite (foldl fmax NaN (row_fix (m ! k) (x ! k)))"
proof (rule foldl_fmax_finite)
  let ?r = "row_fix (m ! k) (x ! k)"
  have l: "length (m ! k) = length (x ! k)" "length (x ! k) = w"
    using sx sm k by (simp_all add: shape_row)
  have lr: "length ?r = w" using l by (simp add: length_row_fix)
  show "\<forall>v\<in>set ?r. v \<noteq> PInf \<and> v \<noteq> NInf"
  proof
    fix v assume "v \<in> set ?r"
    then obtain j where j: "j < w" "v = ?r ! j" using lr by (auto simp: in_set_conv_nth)
    with row_fix_entry[of "m ! k" "x ! k" j] l obtain c where "c < w" "v = x ! k ! c" by auto
    then show "v \<noteq> PInf \<and> v \<noteq> NInf"
      using no_inf_nth[OF ni, of k c] sx k l by (simp add: shape_length)
  qed
  have g: "hd (nonzero (m ! k)) < w" using nonzero_hd(1)[OF nz] l by simp
  have "?r ! hd (nonzero (m ! k)) = x ! k ! hd (nonzero (m ! k))"
    using l nz by (simp add: row_fix_at_hd)
  then have "isfinite (?r ! hd (nonzero (m ! k)))" using fin by simp
  moreover have "?r ! hd (nonzero (m ! k)) \<in> set ?r" using g lr by simp
  ultimately show "isfinite NaN \<or> NaN = NaN \<and> (\<exists>v\<in>set ?r. isfinite v)" by blast
qed

lemma isfinite_no_inf: "isfinite v \<Longrightarrow> v \<noteq> PInf \<and> v \<noteq> NInf"
  by (cases v) simp_all

lemma row_fix_no_inf:
  assumes sx: "shape h w x" and sm: "shape h w m" and k: "k < h" and ni: "no_inf x"
    and v: "v \<in> set (row_fix (m ! k) (x ! k))"
  shows "v \<noteq> PInf \<and> v \<noteq> NInf"
proof -
  let ?r = "row_fix (m ! k) (x ! k)"
  have l: "length (m ! k) = length (x ! k)" "length (x ! k) = w"
    using sx sm k by (simp_all add: shape_row)
  have lr: "length ?r = w" using l by (simp add: length_row_fix)
  from v obtain j where j: "j < w" "v = ?r ! j" using lr by (auto simp: in_set_conv_nth)
  with row_fix_entry[of "m ! k" "x ! k" j] l obtain c where "c < w" "v = x ! k ! c" by auto
  then show ?thesis
    using no_inf_nth[OF ni, of k c] sx k l by (simp add: shape_length)
qed

text \<open>
  One array after the loop and the first overwrite, when the rows have no infinities:
  the maximum over the whole array is finite.
\<close>

lemma whole_max_finite:
  assumes sx: "shape h w x" and sm: "shape h w m" and t: "t < h"
    and nz: "nonzero (m ! t) \<noteq> []" and ni: "no_inf x"
    and fin: "isfinite (x ! t ! hd (nonzero (m ! t)))"
  defines "x1 \<equiv> map2 row_fix m x"
  defines "x2 \<equiv> assign_rows_before (Some t) (foldl fmax NaN (x1 ! t)) x1"
  shows "isfinite (foldl fmax NaN (concat x2))"
proof (rule foldl_fmax_finite)
  let ?mx = "foldl fmax NaN (x1 ! t)"
  have s1: "shape h w x1" unfolding x1_def using sx sm by (rule shape_row_fix)
  have s2: "shape h w x2" unfolding x2_def using s1 by (rule shape_rows_before)
  have r1: "\<And>i. i < h \<Longrightarrow> x1 ! i = row_fix (m ! i) (x ! i)"
    unfolding x1_def using sx sm by (simp add: nth_map2_row_fix)
  have r2: "\<And>i. i < h \<Longrightarrow> x2 ! i = (if i < t then replicate w ?mx else x1 ! i)"
    unfolding x2_def using s1 by (simp add: nth_rows_before)
  have fm: "isfinite ?mx"
    unfolding r1[OF t] using sx sm t nz ni fin by (rule fixed_row_max_finite)
  have l: "length (m ! t) = length (x ! t)" "length (x ! t) = w"
    using sx sm t by (simp_all add: shape_row)
  show "\<forall>v\<in>set (concat x2). v \<noteq> PInf \<and> v \<noteq> NInf"
  proof
    fix v assume "v \<in> set (concat x2)"
    then obtain r where "r \<in> set x2" "v \<in> set r" by auto
    then obtain i where i: "i < h" "v \<in> set (x2 ! i)"
      using s2 by (auto simp: in_set_conv_nth shape_length)
    show "v \<noteq> PInf \<and> v \<noteq> NInf"
    proof (cases "i < t")
      case True
      with i have "v = ?mx" by (auto simp: r2)
      with fm show ?thesis by (simp add: isfinite_no_inf)
    next
      case False
      with i have "v \<in> set (row_fix (m ! i) (x ! i))" by (simp add: r2 r1)
      with sx sm i(1) ni show ?thesis by (rule row_fix_no_inf)
    qed
  qed
  let ?g = "hd (nonzero (m ! t))"
  have g: "?g < w" using nonzero_hd(1)[OF nz] l by simp
  have "x2 ! t ! ?g = x ! t ! ?g" using t l nz by (simp add: r2 r1 row_fix_at_hd)
  then have "isfinite (x2 ! t ! ?g)" using fin by simp
  moreover have "x2 ! t ! ?g \<in> set (x2 ! t)" using g shape_row[OF s2 t] by simp
  moreover have "x2 ! t \<in> set x2" using t s2 by (simp add: shape_length)
  ultimately have "\<exists>v\<in>set (concat x2). isfinite v" by auto
  then show "isfinite NaN \<or> NaN = NaN \<and> (\<exists>v\<in>set (concat x2). isfinite v)" by blast
qed

section \<open>The rows of the result\<close>

lemma pcolormesh_nan_rows:
  assumes sx: "shape h w x" and sy: "shape h w y"
    and v0: "i0 < h" "j0 < w" "valid_at x y i0 j0"
    and nx: "no_inf x" and ny: "no_inf y"
  shows "\<exists>x' y'. pcolormesh_nan x y = Inr (x', y') \<and> shape h w x' \<and> shape h w y' \<and>
     (\<forall>i<h. (\<exists>vx vy. isfinite vx \<and> isfinite vy \<and>
                x' ! i = replicate w vx \<and> y' ! i = replicate w vy)
           \<or> (x' ! i = row_fix (mask x y ! i) (x ! i) \<and> y' ! i = row_fix (mask x y ! i) (y ! i)
              \<and> (\<exists>t b. t \<le> i \<and> i < b \<and> b < h
                   \<and> nonzero (mask x y ! t) \<noteq> [] \<and> nonzero (mask x y ! b) \<noteq> [])))"
proof -
  let ?M = "mask x y"
  let ?vs = "valid_rows 0 ?M"
  let ?t = "hd ?vs"
  let ?x1 = "map2 row_fix ?M x" and ?y1 = "map2 row_fix ?M y"
  let ?mx = "foldl fmax NaN (?x1 ! ?t)" and ?my = "foldl fmax NaN (?y1 ! ?t)"
  let ?x2 = "assign_rows_before (Some ?t) ?mx ?x1"
  let ?y2 = "assign_rows_before (Some ?t) ?my ?y1"
  have sm: "shape h w ?M" using sx sy by (rule mask_shape)
  have setvs: "set ?vs = {k. k < h \<and> nonzero (?M ! k) \<noteq> []}"
    using sx sy by (rule valid_rows_mask)
  have srt: "sorted_wrt (<) ?vs" by (rule sorted_valid_rows)
  have "nonzero (?M ! i0) \<noteq> []" using sx sy v0 by (rule mask_row_valid)
  then have "i0 \<in> set ?vs" using v0(1) by (simp add: setvs)
  then have ne: "?vs \<noteq> []" by auto
  then have "?t \<in> set ?vs" by simp
  then have t: "?t < h" and tv: "nonzero (?M ! ?t) \<noteq> []" by (simp_all add: setvs)
  have s1: "shape h w ?x1" "shape h w ?y1" using sx sy sm by (simp_all add: shape_row_fix)
  have s2: "shape h w ?x2" "shape h w ?y2" using s1 by (simp_all add: shape_rows_before)
  have r1: "\<And>i. i < h \<Longrightarrow> ?x1 ! i = row_fix (?M ! i) (x ! i)"
    "\<And>i. i < h \<Longrightarrow> ?y1 ! i = row_fix (?M ! i) (y ! i)"
    using sx sy sm by (simp_all add: nth_map2_row_fix)
  have r2: "\<And>i. i < h \<Longrightarrow> ?x2 ! i = (if i < ?t then replicate w ?mx else ?x1 ! i)"
    "\<And>i. i < h \<Longrightarrow> ?y2 ! i = (if i < ?t then replicate w ?my else ?y1 ! i)"
    using s1 by (simp_all add: nth_rows_before)
  have fin: "\<And>k. k < h \<Longrightarrow> nonzero (?M ! k) \<noteq> [] \<Longrightarrow>
      isfinite (x ! k ! hd (nonzero (?M ! k))) \<and> isfinite (y ! k ! hd (nonzero (?M ! k)))"
    using mask_valid_at_hd(2)[OF sx sy] by (simp add: valid_at_def)
  have fmax_row: "\<And>k. k < h \<Longrightarrow> nonzero (?M ! k) \<noteq> [] \<Longrightarrow>
      isfinite (foldl fmax NaN (?x1 ! k)) \<and> isfinite (foldl fmax NaN (?y1 ! k))"
    using fixed_row_max_finite[OF sx sm _ _ nx] fixed_row_max_finite[OF sy sm _ _ ny] fin
    by (simp add: r1)
  have fm: "isfinite ?mx" "isfinite ?my" using fmax_row[OF t tv] by simp_all
  note closed = pcolormesh_nan_valid[OF sx sy ne]
  show ?thesis
  proof (cases "bottom_of ?vs")
    case None
    let ?vx = "foldl fmax NaN (concat ?x2)" and ?vy = "foldl fmax NaN (concat ?y2)"
    have e: "pcolormesh_nan x y = Inr (replicate h (replicate w ?vx), replicate h (replicate w ?vy))"
      using closed None by simp
    have f: "isfinite ?vx" "isfinite ?vy"
      using whole_max_finite[OF sx sm t tv nx] whole_max_finite[OF sy sm t tv ny] fin[OF t tv]
      by simp_all
    show ?thesis
    proof (intro exI conjI allI impI)
      show "pcolormesh_nan x y = Inr (replicate h (replicate w ?vx), replicate h (replicate w ?vy))"
        by (rule e)
      show "shape h w (replicate h (replicate w ?vx))" "shape h w (replicate h (replicate w ?vy))"
        by (rule shape_replicate)+
      fix i assume "i < h"
      then have "isfinite ?vx \<and> isfinite ?vy \<and>
          replicate h (replicate w ?vx) ! i = replicate w ?vx \<and>
          replicate h (replicate w ?vy) ! i = replicate w ?vy" using f by simp
      then show "(\<exists>vx vy. isfinite vx \<and> isfinite vy \<and>
                replicate h (replicate w ?vx) ! i = replicate w vx \<and>
                replicate h (replicate w ?vy) ! i = replicate w vy)
           \<or> (replicate h (replicate w ?vx) ! i = row_fix (?M ! i) (x ! i) \<and>
               replicate h (replicate w ?vy) ! i = row_fix (?M ! i) (y ! i)
              \<and> (\<exists>t b. t \<le> i \<and> i < b \<and> b < h
                   \<and> nonzero (?M ! t) \<noteq> [] \<and> nonzero (?M ! b) \<noteq> []))"
        by blast
    qed
  next
    case (Some b)
    note bs = bottom_of_Some[OF Some srt]
    from bs(2) have b: "b < h" and bv: "nonzero (?M ! b) \<noteq> []" by (simp_all add: setvs)
    let ?bx = "foldl fmax NaN (?x1 ! b)" and ?by = "foldl fmax NaN (?y1 ! b)"
    let ?x3 = "assign_rows_from (Some b) ?bx ?x2" and ?y3 = "assign_rows_from (Some b) ?by ?y2"
    have e: "pcolormesh_nan x y = Inr (?x3, ?y3)" using closed Some by simp
    have fb: "isfinite ?bx" "isfinite ?by" using fmax_row[OF b bv] by simp_all
    have r3: "\<And>i. i < h \<Longrightarrow> ?x3 ! i = (if b \<le> i then replicate w ?bx else ?x2 ! i)"
      "\<And>i. i < h \<Longrightarrow> ?y3 ! i = (if b \<le> i then replicate w ?by else ?y2 ! i)"
      using s2 by (simp_all add: nth_rows_from)
    show ?thesis
    proof (intro exI conjI allI impI)
      show "pcolormesh_nan x y = Inr (?x3, ?y3)" by (rule e)
      show "shape h w ?x3" "shape h w ?y3" using s2 by (simp_all add: shape_rows_from)
      fix i assume i: "i < h"
      consider "i < ?t" | "b \<le> i" | "?t \<le> i" "i < b" by linarith
      then show "(\<exists>vx vy. isfinite vx \<and> isfinite vy \<and>
                ?x3 ! i = replicate w vx \<and> ?y3 ! i = replicate w vy)
           \<or> (?x3 ! i = row_fix (?M ! i) (x ! i) \<and> ?y3 ! i = row_fix (?M ! i) (y ! i)
              \<and> (\<exists>t b. t \<le> i \<and> i < b \<and> b < h
                   \<and> nonzero (?M ! t) \<noteq> [] \<and> nonzero (?M ! b) \<noteq> []))"
      proof cases
        case 1
        then have "?x3 ! i = replicate w ?mx \<and> ?y3 ! i = replicate w ?my"
          using i bs(3) by (simp add: r3 r2)
        with fm show ?thesis by blast
      next
        case 2
        then have "?x3 ! i = replicate w ?bx \<and> ?y3 ! i = replicate w ?by"
          using i by (simp add: r3)
        with fb show ?thesis by blast
      next
        case 3
        then have "?x3 ! i = ?x1 ! i \<and> ?y3 ! i = ?y1 ! i"
          using i by (simp add: r3 r2)
        then have "?x3 ! i = row_fix (?M ! i) (x ! i) \<and> ?y3 ! i = row_fix (?M ! i) (y ! i)"
          by (simp only: r1[OF i])
        with 3 b tv bv show ?thesis by blast
      qed
    qed
  qed
qed

section \<open>Invalid entries of the result\<close>




section \<open>Grids that the compressor leaves alone\<close>

lemma foldl_fmax_NaN_replicate: "0 < n \<Longrightarrow> foldl fmax NaN (replicate n v) = v"
  by (cases n) (simp_all add: foldl_fmax_replicate)

lemma row_fix_ends:
  assumes l: "length m = length r" and p: "0 < length r"
    and a: "m ! 0" and b: "m ! (length r - 1)"
  shows "row_fix m r = r"
proof (rule nth_equalityI)
  show "length (row_fix m r) = length r" using l by (rule length_row_fix)
  have ne: "nonzero m \<noteq> []" unfolding nonzero_empty using a p l by auto
  have g: "hd (nonzero m) = 0" using nonzero_hd(3)[OF ne, of 0] a p l by simp
  have "length r - 1 \<le> last (nonzero m)" using nonzero_last(3)[OF ne, of "length r - 1"] b p l by simp
  then have e: "\<And>j. j < length r \<Longrightarrow> \<not> last (nonzero m) < j" by auto
  fix j assume "j < length (row_fix m r)"
  then have j: "j < length r" using l by (simp add: length_row_fix)
  show "row_fix m r ! j = r ! j" using l j ne g e[OF j] by (simp add: nth_row_fix)
qed

lemma rows_before_0: "assign_rows_before (Some 0) v g = g"
  by (simp add: assign_rows_before_def)

lemma single_sorted:
  assumes "length vs \<le> 1" "a \<in> set vs" "b \<in> set vs"
  shows "a = b"
proof (cases vs)
  case Nil
  with assms show ?thesis by simp
next
  case (Cons c cs)
  with assms(1) have "cs = []" by simp
  with Cons assms show ?thesis by simp
qed

lemma length_rows_from: "length (assign_rows_from k v g) = length g"
  by (cases k) (simp_all add: assign_rows_from_def)

lemma rows_from_last:
  assumes s: "shape h w g" and l: "l < h" and top: "\<And>i. i < h \<Longrightarrow> l \<le> i \<Longrightarrow> i = l"
    and r: "g ! l = replicate w v"
  shows "assign_rows_from (Some l) v g = g"
proof (rule nth_equalityI)
  show "length (assign_rows_from (Some l) v g) = length g" by (rule length_rows_from)
  fix i assume "i < length (assign_rows_from (Some l) v g)"
  then have i: "i < h" using s by (simp add: length_rows_from shape_length)
  show "assign_rows_from (Some l) v g ! i = g ! i"
  proof (cases "l \<le> i")
    case True
    with i have "i = l" by (rule top)
    then show ?thesis using s i r by (simp add: nth_rows_from)
  next
    case False
    then show ?thesis using s i by (simp add: nth_rows_from)
  qed
qed

lemma pcolormesh_nan_fixpoint:
  assumes sx: "shape h w x" and sy: "shape h w y" and h: "0 < h" and w: "0 < w"
    and rows: "\<And>i. i < h \<Longrightarrow>
        nonzero (mask x y ! i) = [] \<or> (mask x y ! i ! 0 \<and> mask x y ! i ! (w - 1))"
    and r0: "nonzero (mask x y ! 0) \<noteq> []"
    and lx: "x ! (h - 1) = replicate w vx" and ly: "y ! (h - 1) = replicate w vy"
    and fv: "isfinite vx" "isfinite vy"
  shows "pcolormesh_nan x y = Inr (x, y)"
proof -
  define l where "l = h - 1"
  have lx: "x ! l = replicate w vx" and ly: "y ! l = replicate w vy"
    using lx ly by (simp_all add: l_def)
  have hl: "l < h" and top: "\<And>i. i < h \<Longrightarrow> l \<le> i \<Longrightarrow> i = l"
    using h by (simp_all add: l_def)
  let ?M = "mask x y"
  let ?vs = "valid_rows 0 ?M"
  have sm: "shape h w ?M" using sx sy by (rule mask_shape)
  have id: "row_fix (?M ! i) (x ! i) = x ! i \<and> row_fix (?M ! i) (y ! i) = y ! i" if i: "i < h" for i
  proof (cases "nonzero (?M ! i) = []")
    case True
    then show ?thesis by (simp add: row_fix_none)
  next
    case False
    with rows[OF i] have e: "?M ! i ! 0" "?M ! i ! (w - 1)" by simp_all
    have l: "length (?M ! i) = w" "length (x ! i) = w" "length (y ! i) = w"
      using sx sy sm i by (simp_all add: shape_row)
    show ?thesis using l w e by (simp add: row_fix_ends)
  qed
  have x1: "map2 row_fix ?M x = x"
    by (rule map2_row_fix_id) (use sx sm id in \<open>simp_all add: shape_length\<close>)
  have y1: "map2 row_fix ?M y = y"
    by (rule map2_row_fix_id) (use sy sm id in \<open>simp_all add: shape_length\<close>)
  have setvs: "set ?vs = {k. k < h \<and> nonzero (?M ! k) \<noteq> []}"
    using sx sy by (rule valid_rows_mask)
  have srt: "sorted_wrt (<) ?vs" by (rule sorted_valid_rows)
  have z: "0 \<in> set ?vs" using h r0 by (simp add: setvs)
  then have ne: "?vs \<noteq> []" by auto
  have t: "hd ?vs = 0" using sorted_hd_min[OF srt z] by simp
  have "valid_at x y l 0" unfolding valid_at_def lx ly using w fv by simp
  then have "nonzero (?M ! l) \<noteq> []" using mask_row_valid[OF sx sy hl w] by simp
  then have lst: "l \<in> set ?vs" using hl by (simp add: setvs)
  have mx: "foldl fmax NaN (x ! l) = vx" "foldl fmax NaN (y ! l) = vy"
    unfolding lx ly using w by (simp_all add: foldl_fmax_NaN_replicate)
  note closed = pcolormesh_nan_valid[OF sx sy ne, unfolded x1 y1 t rows_before_0]
  show ?thesis
  proof (cases "bottom_of ?vs")
    case None
    then have "length ?vs \<le> 1" by (simp add: bottom_of_None)
    then have l0: "l = 0" using lst z by (rule single_sorted)
    then have h1: "h = 1" using h by (simp add: l_def)
    have cx: "x = [replicate w vx]"
      by (rule nth_equalityI) (use sx lx h1 l0 in \<open>simp_all add: shape_length\<close>)
    have cy: "y = [replicate w vy]"
      by (rule nth_equalityI) (use sy ly h1 l0 in \<open>simp_all add: shape_length\<close>)
    have "foldl fmax NaN (concat x) = vx" "foldl fmax NaN (concat y) = vy"
      using w by (simp_all add: cx cy foldl_fmax_NaN_replicate)
    then have "pcolormesh_nan x y = Inr (replicate h (replicate w vx), replicate h (replicate w vy))"
      using closed None by simp
    also have "replicate h (replicate w vx) = x" using h1 cx by simp
    also have "replicate h (replicate w vy) = y" using h1 cy by simp
    finally show ?thesis .
  next
    case (Some b)
    note bs = bottom_of_Some[OF Some srt]
    from bs(2) have "b < h" by (simp add: setvs)
    moreover have "l \<le> b" unfolding bs(1) using srt lst by (rule sorted_last_max)
    ultimately have b: "b = l" using top by simp
    have e: "pcolormesh_nan x y =
       Inr (assign_rows_from (Some l) vx x, assign_rows_from (Some l) vy y)"
      using closed Some by (simp add: b mx)
    have ex: "assign_rows_from (Some l) vx x = x"
      using sx hl top lx by (rule rows_from_last)
    have ey: "assign_rows_from (Some l) vy y = y"
      using sy hl top ly by (rule rows_from_last)
    show ?thesis using e by (simp only: ex ey)
  qed
qed

lemma uniform_row_valid:
  assumes "x' ! i = replicate w vx" "y' ! i = replicate w vy" "isfinite vx" "isfinite vy" "j < w"
  shows "valid_at x' y' i j"
  unfolding valid_at_def assms(1,2) using assms(3,4,5) by simp

lemma fixed_row_ends_valid:
  assumes sx: "shape h w x" and sy: "shape h w y" and i: "i < h" and w: "0 < w"
    and nz: "nonzero (mask x y ! i) \<noteq> []"
    and fx: "x' ! i = row_fix (mask x y ! i) (x ! i)"
    and fy: "y' ! i = row_fix (mask x y ! i) (y ! i)"
  shows "valid_at x' y' i 0" "valid_at x' y' i (w - 1)"
proof -
  let ?m = "mask x y ! i"
  let ?g = "hd (nonzero ?m)" and ?l = "last (nonzero ?m)"
  have l: "length ?m = w" "length (x ! i) = w" "length (y ! i) = w"
    using sx sy i by (simp_all add: shape_row[OF mask_shape] shape_row)
  note g = mask_valid_at_hd[OF sx sy i nz] and la = mask_valid_at_last[OF sx sy i nz]
  note gl = nonzero_hd_le_last[OF nz]
  have "x' ! i ! 0 = x ! i ! ?g \<and> y' ! i ! 0 = y ! i ! ?g"
  proof (cases "0 < ?g")
    case True
    then show ?thesis using l w nz by (simp add: fx fy nth_row_fix)
  next
    case False
    then have "?g = 0" by simp
    then show ?thesis using l w nz by (simp add: fx fy nth_row_fix)
  qed
  then show "valid_at x' y' i 0" using g(2) by (simp add: valid_at_def)
  have w1: "w - 1 < w" using w by simp
  have "x' ! i ! (w - 1) = x ! i ! ?l \<and> y' ! i ! (w - 1) = y ! i ! ?l"
  proof (cases "?l < w - 1")
    case True
    then have "\<not> w - 1 < ?g" using gl by simp
    then show ?thesis using l w1 nz True by (simp add: fx fy nth_row_fix)
  next
    case False
    then have e: "w - 1 = ?l" using la(1) by simp
    have "\<not> ?l < ?g" using gl by simp
    then show ?thesis using l nz la(1) unfolding e by (simp add: fx fy nth_row_fix)
  qed
  then show "valid_at x' y' i (w - 1)" using la(2) by (simp add: valid_at_def)
qed

lemma mask_row_cong:
  assumes "shape h w x" "shape h w y" "shape h w x'" "shape h w y'" "i < h"
    and "x' ! i = x ! i" "y' ! i = y ! i"
  shows "mask x' y' ! i = mask x y ! i"
  using assms by (simp add: mask_row shape_length)

text \<open>
  On grids of one common shape with a valid entry and without infinities, the
  assignments of the compressor, applied to the grids they produced, leave them
  unchanged.
\<close>

lemma pcolormesh_nan_twice:
  assumes sx: "shape h w x" and sy: "shape h w y"
    and v0: "i0 < h" "j0 < w" "valid_at x y i0 j0"
    and nx: "no_inf x" and ny: "no_inf y"
  shows "\<exists>x' y'. pcolormesh_nan x y = Inr (x', y') \<and> pcolormesh_nan x' y' = Inr (x', y')"
proof -
  from pcolormesh_nan_rows[OF sx sy v0 nx ny] obtain x' y' where
    e: "pcolormesh_nan x y = Inr (x', y')" and s: "shape h w x'" "shape h w y'" and
    rows: "\<forall>i<h. (\<exists>vx vy. isfinite vx \<and> isfinite vy \<and>
                x' ! i = replicate w vx \<and> y' ! i = replicate w vy)
           \<or> (x' ! i = row_fix (mask x y ! i) (x ! i) \<and> y' ! i = row_fix (mask x y ! i) (y ! i)
              \<and> (\<exists>t b. t \<le> i \<and> i < b \<and> b < h
                   \<and> nonzero (mask x y ! t) \<noteq> [] \<and> nonzero (mask x y ! b) \<noteq> []))"
    by blast
  have h: "0 < h" and w: "0 < w" using v0 by simp_all
  have w1: "w - 1 < w" using w by simp
  have ends: "nonzero (mask x' y' ! i) = [] \<or> (mask x' y' ! i ! 0 \<and> mask x' y' ! i ! (w - 1))"
    if i: "i < h" for i
  proof -
    from rows i consider
      (U) vx vy where "isfinite vx" "isfinite vy" "x' ! i = replicate w vx" "y' ! i = replicate w vy"
      | (F) "x' ! i = row_fix (mask x y ! i) (x ! i)" "y' ! i = row_fix (mask x y ! i) (y ! i)"
      by blast
    then show ?thesis
    proof cases
      case U
      have "valid_at x' y' i 0" "valid_at x' y' i (w - 1)"
        using U w w1 by (simp_all add: uniform_row_valid)
      then show ?thesis using s i w w1 by (simp add: mask_nth)
    next
      case F
      show ?thesis
      proof (cases "nonzero (mask x y ! i) = []")
        case True
        have q: "x' ! i = x ! i" "y' ! i = y ! i"
          by (simp_all only: F row_fix_none[OF True])
        have "mask x' y' ! i = mask x y ! i" using sx sy s i q by (rule mask_row_cong)
        with True show ?thesis by simp
      next
        case False
        note fixed_row_ends_valid[OF sx sy i w False F]
        then show ?thesis using s i w w1 by (simp add: mask_nth)
      qed
    qed
  qed
  have r0: "nonzero (mask x' y' ! 0) \<noteq> []"
  proof -
    from rows h consider
      (U) vx vy where "isfinite vx" "isfinite vy" "x' ! 0 = replicate w vx" "y' ! 0 = replicate w vy"
      | (F) "x' ! 0 = row_fix (mask x y ! 0) (x ! 0)" "y' ! 0 = row_fix (mask x y ! 0) (y ! 0)"
          "nonzero (mask x y ! 0) \<noteq> []"
      by fastforce
    then have "valid_at x' y' 0 0"
    proof cases
      case U
      then show ?thesis using w by (simp add: uniform_row_valid)
    next
      case F
      show ?thesis by (rule fixed_row_ends_valid(1)[OF sx sy h w F(3) F(1,2)])
    qed
    with mask_row_valid[OF s h w] show ?thesis by simp
  qed
  have "h - 1 < h" using h by simp
  with rows have "(\<exists>vx vy. isfinite vx \<and> isfinite vy \<and>
                x' ! (h - 1) = replicate w vx \<and> y' ! (h - 1) = replicate w vy)
       \<or> (\<exists>b. h - 1 < b \<and> b < h)" by blast
  then obtain vx vy where l: "isfinite vx" "isfinite vy"
    "x' ! (h - 1) = replicate w vx" "y' ! (h - 1) = replicate w vy"
    by auto
  have "pcolormesh_nan x' y' = Inr (x', y')"
    using s h w ends r0 l(3,4,1,2) by (rule pcolormesh_nan_fixpoint)
  with e show ?thesis by blast
qed

section \<open>The compressor on concrete grids\<close>

theorem pcolormesh_nan_call_no_valid_witness:
  "shape 2 2 [[NaN, Fin 3], [Fin 1, NaN]] \<and> shape 2 2 [[Fin 2, NaN], [NaN, Fin 5]]
   \<and> \<not> valid_at [[NaN, Fin 3], [Fin 1, NaN]] [[Fin 2, NaN], [NaN, Fin 5]] 0 0
   \<and> \<not> valid_at [[NaN, Fin 3], [Fin 1, NaN]] [[Fin 2, NaN], [NaN, Fin 5]] 0 1
   \<and> \<not> valid_at [[NaN, Fin 3], [Fin 1, NaN]] [[Fin 2, NaN], [NaN, Fin 5]] 1 0
   \<and> \<not> valid_at [[NaN, Fin 3], [Fin 1, NaN]] [[Fin 2, NaN], [NaN, Fin 5]] 1 1
   \<and> pcolormesh_nan_call [[NaN, Fin 3], [Fin 1, NaN]] [[Fin 2, NaN], [NaN, Fin 5]] =
       Inr ([[Fin 3, Fin 3], [Fin 3, Fin 3]], [[Fin 5, Fin 5], [Fin 5, Fin 5]])
   \<and> shape 1 1 [[NaN]] \<and> \<not> valid_at [[NaN]] [[NaN]] 0 0
   \<and> pcolormesh_nan_call [[NaN]] [[NaN]] = Inl ValueError
   \<and> pcolormesh_nan_call [] [] = Inl ValueError"
proof -
  let ?x = "[[NaN, Fin 3], [Fin 1, NaN]]" and ?y = "[[Fin 2, NaN], [NaN, Fin 5]]"
  have s: "shape 2 2 ?x" "shape 2 2 ?y" by (simp_all add: shape_def)
  have v: "\<not> valid_at ?x ?y 0 0" "\<not> valid_at ?x ?y 0 1"
    "\<not> valid_at ?x ?y 1 0" "\<not> valid_at ?x ?y 1 1" by (simp_all add: valid_at_def)
  have a: "\<forall>i<2. \<forall>j<2. \<not> valid_at ?x ?y i j"
    using v by (simp add: less_Suc_eq numeral_2_eq_2)
  have n: "nanmax (concat ?x) = Inr (Fin 3)" "nanmax (concat ?y) = Inr (Fin 5)" by simp_all
  from pcolormesh_nan_call_no_valid[OF s a] n
  have p: "pcolormesh_nan_call ?x ?y =
       Inr ([[Fin 3, Fin 3], [Fin 3, Fin 3]], [[Fin 5, Fin 5], [Fin 5, Fin 5]])"
    by (auto simp: numeral_2_eq_2)
  have s1: "shape 1 1 [[NaN]]" by (simp add: shape_def)
  have v1: "\<not> valid_at [[NaN]] [[NaN]] 0 0" by (simp add: valid_at_def)
  have a1: "\<forall>i<1. \<forall>j<1. \<not> valid_at [[NaN]] [[NaN]] i j" using v1 by simp
  have n1: "nanmax (concat [[NaN]]) = Inr NaN" by simp
  from pcolormesh_nan_call_no_valid[OF s1 s1 a1] n1
  have q: "pcolormesh_nan_call [[NaN]] [[NaN]] = Inl ValueError" by auto
  have s0: "shape 0 0 ([] :: grid)" by (simp add: shape_def)
  have a0: "\<forall>i<0. \<forall>j<0. \<not> valid_at [] [] i j" by simp
  from pcolormesh_nan_call_no_valid[OF s0 s0 a0]
  have e: "pcolormesh_nan_call [] [] = Inl ValueError" by simp
  from s v p s1 v1 q e show ?thesis by blast
qed

theorem pcolormesh_nan_call_no_valid_counterexample:
  "\<not> valid_at [[NaN, Fin 1]] [[Fin 2, NaN]] 0 0 \<and> \<not> valid_at [[NaN, Fin 1]] [[Fin 2, NaN]] 0 1
   \<and> pcolormesh_nan_call [[NaN, Fin 1]] [[Fin 2, NaN]] = Inr ([[Fin 1, Fin 1]], [[Fin 2, Fin 2]])"
  by code_simp



text \<open>
  C6. On the longitudes 1, 2 over 3, 4 and the latitudes 5, 6 over 7, 8, where every
  entry is valid, a call of the compressor returns with the last row overwritten by its
  maximum: the valid entries 3 and 7 in its first column have become 4 and 8.
\<close>

theorem pcolormesh_nan_alters_valid_cell:
  "valid_at [[Fin 1, Fin 2], [Fin 3, Fin 4]] [[Fin 5, Fin 6], [Fin 7, Fin 8]] 1 0
   \<and> pcolormesh_nan_call [[Fin 1, Fin 2], [Fin 3, Fin 4]] [[Fin 5, Fin 6], [Fin 7, Fin 8]] =
       Inr ([[Fin 1, Fin 2], [Fin 4, Fin 4]], [[Fin 5, Fin 6], [Fin 8, Fin 8]])
   \<and> [[Fin 1, Fin 2], [Fin 4, Fin 4]] ! 1 ! 0 \<noteq> [[Fin 1, Fin 2], [Fin 3, Fin 4]] ! 1 ! 0
   \<and> pcolormesh_nan_call [[Fin 1, Fin 2], [Fin 4, Fin 4]] [[Fin 5, Fin 6], [Fin 8, Fin 8]] =
       Inr ([[Fin 1, Fin 2], [Fin 4, Fin 4]], [[Fin 5, Fin 6], [Fin 8, Fin 8]])"
  by code_simp

text \<open>
  The assignments applied twice. With an infinity between the valid entries of the
  last valid row, which \<open>np.isfinite\<close> masks and \<open>np.nanmax\<close> does not skip, the second
  application changes the first row; the call itself ends in the rendering error
  there. Without infinities the second application changes nothing.
\<close>

lemma pcolormesh_nan_twice_infinity:
  "pcolormesh_nan [[Fin 1, Fin 1, Fin 1], [Fin 1, PInf, Fin 2]]
                  [[Fin 1, Fin 1, Fin 1], [Fin 1, Fin 0, Fin 2]] =
       Inr ([[Fin 1, Fin 1, Fin 1], [PInf, PInf, PInf]], [[Fin 1, Fin 1, Fin 1], [Fin 2, Fin 2, Fin 2]])
   \<and> pcolormesh_nan [[Fin 1, Fin 1, Fin 1], [PInf, PInf, PInf]]
                    [[Fin 1, Fin 1, Fin 1], [Fin 2, Fin 2, Fin 2]] =
       Inr ([[PInf, PInf, PInf], [PInf, PInf, PInf]], [[Fin 2, Fin 2, Fin 2], [Fin 2, Fin 2, Fin 2]])
   \<and> pcolormesh_nan_call [[Fin 1, Fin 1, Fin 1], [Fin 1, PInf, Fin 2]]
                         [[Fin 1, Fin 1, Fin 1], [Fin 1, Fin 0, Fin 2]] = Inl ValueError"
  by code_simp

lemma pcolormesh_nan_twice_example:
  "pcolormesh_nan [[NaN, Fin 1, NaN], [Fin 3, NaN, Fin 4]] [[NaN, Fin 5, NaN], [Fin 6, NaN, Fin 7]] =
       Inr ([[Fin 1, Fin 1, Fin 1], [Fin 4, Fin 4, Fin 4]], [[Fin 5, Fin 5, Fin 5], [Fin 7, Fin 7, Fin 7]])
   \<and> pcolormesh_nan [[Fin 1, Fin 1, Fin 1], [Fin 4, Fin 4, Fin 4]] [[Fin 5, Fin 5, Fin 5], [Fin 7, Fin 7, Fin 7]] =
       Inr ([[Fin 1, Fin 1, Fin 1], [Fin 4, Fin 4, Fin 4]], [[Fin 5, Fin 5, Fin 5], [Fin 7, Fin 7, Fin 7]])"
  by code_simp

section \<open>Assignments of not-a-number\<close>

lemma assign_nan_entries:
  assumes "\<And>r c. (r, c) \<in> set idx \<Longrightarrow> r < length g \<and> c < length (g ! r)"
  shows "\<exists>g'. assign_nan idx g = Inr g' \<and> length g' = length g
           \<and> (\<forall>i<length g. length (g' ! i) = length (g ! i))
           \<and> (\<forall>i<length g. \<forall>j<length (g ! i).
                 g' ! i ! j = (if (i, j) \<in> set idx then NaN else g ! i ! j))"
  using assms
proof (induction idx arbitrary: g)
  case Nil
  then show ?case by simp
next
  case (Cons p idx)
  obtain r c where p: "p = (r, c)" by (cases p)
  let ?g = "g[r := (g ! r)[c := NaN]]"
  have rc: "r < length g" "c < length (g ! r)" using Cons.prems[of r c] p by simp_all
  have len: "length ?g = length g" by simp
  have row: "\<And>i. i < length g \<Longrightarrow> length (?g ! i) = length (g ! i)"
    using rc by (simp add: nth_list_update)
  have ent: "\<And>i j. i < length g \<Longrightarrow> j < length (g ! i) \<Longrightarrow>
      ?g ! i ! j = (if (i, j) = (r, c) then NaN else g ! i ! j)"
    using rc by (auto simp: nth_list_update)
  have old: "\<And>r' c'. (r', c') \<in> set idx \<Longrightarrow> r' < length g \<and> c' < length (g ! r')"
    by (rule Cons.prems) simp
  have bnd: "\<And>r' c'. (r', c') \<in> set idx \<Longrightarrow> r' < length ?g \<and> c' < length (?g ! r')"
    using old row by simp
  from Cons.IH[OF bnd] obtain g' where g':
    "assign_nan idx ?g = Inr g'" "length g' = length ?g"
    "\<forall>i<length ?g. length (g' ! i) = length (?g ! i)"
    "\<forall>i<length ?g. \<forall>j<length (?g ! i).
        g' ! i ! j = (if (i, j) \<in> set idx then NaN else ?g ! i ! j)"
    by blast
  have e: "assign_nan (p # idx) g = Inr g'" using rc g'(1) by (simp add: p)
  have l2: "\<forall>i<length g. length (g' ! i) = length (g ! i)"
    using g'(3) row by simp
  have e2: "\<forall>i<length g. \<forall>j<length (g ! i).
      g' ! i ! j = (if (i, j) \<in> set (p # idx) then NaN else g ! i ! j)"
  proof (intro allI impI)
    fix i j assume i: "i < length g" and j: "j < length (g ! i)"
    have a: "g' ! i ! j = (if (i, j) \<in> set idx then NaN else ?g ! i ! j)"
      using g'(4) i j row[OF i] by simp
    note b = ent[OF i j]
    show "g' ! i ! j = (if (i, j) \<in> set (p # idx) then NaN else g ! i ! j)"
    proof (cases "(i, j) = (r, c)")
      case True
      have "?g ! i ! j = NaN" by (rule trans[OF b if_P[OF True]])
      then have "g' ! i ! j = NaN" using a by simp
      then show ?thesis using True p by auto
    next
      case False
      have "?g ! i ! j = g ! i ! j" by (rule trans[OF b if_not_P[OF False]])
      then have "g' ! i ! j = (if (i, j) \<in> set idx then NaN else g ! i ! j)" using a by simp
      then show ?thesis using False p by auto
    qed
  qed
  show ?case using e g'(2) len l2 e2 by simp
qed

lemma assign_nan_shape:
  assumes s: "shape h w g" and b: "\<And>r c. (r, c) \<in> set idx \<Longrightarrow> r < h \<and> c < w"
  shows "\<exists>g'. assign_nan idx g = Inr g' \<and> shape h w g'
           \<and> (\<forall>i<h. \<forall>j<w. g' ! i ! j = (if (i, j) \<in> set idx then NaN else g ! i ! j))"
proof -
  have "\<And>r c. (r, c) \<in> set idx \<Longrightarrow> r < length g \<and> c < length (g ! r)"
    using b s by (simp add: shape_length shape_row)
  from assign_nan_entries[OF this] obtain g' where g':
    "assign_nan idx g = Inr g'" "length g' = length g"
    "\<forall>i<length g. length (g' ! i) = length (g ! i)"
    "\<forall>i<length g. \<forall>j<length (g ! i).
        g' ! i ! j = (if (i, j) \<in> set idx then NaN else g ! i ! j)"
    by blast
  have "shape h w g'" using g'(2,3) s by (intro shapeI) (simp_all add: shape_length shape_row)
  moreover have "\<forall>i<h. \<forall>j<w. g' ! i ! j = (if (i, j) \<in> set idx then NaN else g ! i ! j)"
    using g'(4) s by (simp add: shape_length shape_row)
  ultimately show ?thesis using g'(1) by blast
qed

lemma set_where_low:
  "set (where_low el T) = {(r, c). low_cell el T r c}"
  by (auto simp: where_low_def low_cell_def)

lemma low_cell_bounds: "shape h w el \<Longrightarrow> low_cell el T r c \<Longrightarrow> r < h \<and> c < w"
  by (auto simp: low_cell_def shape_length shape_row)

lemma set_boundary_bottom:
  "((i, j) \<in> set (map (\<lambda>(r, c). (r + 1, c)) (where_low el T))) = (0 < i \<and> low_cell el T (i - 1) j)"
proof
  assume "(i, j) \<in> set (map (\<lambda>(r, c). (r + 1, c)) (where_low el T))"
  then obtain r c where "(r, c) \<in> set (where_low el T)" "i = r + 1" "j = c" by auto
  then show "0 < i \<and> low_cell el T (i - 1) j" by (simp add: set_where_low)
next
  assume a: "0 < i \<and> low_cell el T (i - 1) j"
  then have "(i - 1, j) \<in> set (where_low el T)" by (simp add: set_where_low)
  then have "(\<lambda>(r, c). (r + 1, c)) (i - 1, j) \<in> set (map (\<lambda>(r, c). (r + 1, c)) (where_low el T))"
    unfolding set_map by (rule imageI)
  then show "(i, j) \<in> set (map (\<lambda>(r, c). (r + 1, c)) (where_low el T))" using a by simp
qed

lemma set_boundary_right:
  "((i, j) \<in> set (map (\<lambda>(r, c). (r, c + 1)) (where_low el T))) = (0 < j \<and> low_cell el T i (j - 1))"
proof
  assume "(i, j) \<in> set (map (\<lambda>(r, c). (r, c + 1)) (where_low el T))"
  then obtain r c where "(r, c) \<in> set (where_low el T)" "i = r" "j = c + 1" by auto
  then show "0 < j \<and> low_cell el T i (j - 1)" by (simp add: set_where_low)
next
  assume a: "0 < j \<and> low_cell el T i (j - 1)"
  then have "(i, j - 1) \<in> set (where_low el T)" by (simp add: set_where_low)
  then have "(\<lambda>(r, c). (r, c + 1)) (i, j - 1) \<in> set (map (\<lambda>(r, c). (r, c + 1)) (where_low el T))"
    unfolding set_map by (rule imageI)
  then show "(i, j) \<in> set (map (\<lambda>(r, c). (r, c + 1)) (where_low el T))" using a by simp
qed

section \<open>The result of the masker\<close>

lemma map_assign_nan:
  assumes sg: "shape (Suc h) (Suc w) g" and se: "shape h w el"
  shows "\<exists>g1 g2 g3.
      assign_nan (where_low el T) g = Inr g1
    \<and> assign_nan (map (\<lambda>(r, c). (r + 1, c)) (where_low el T)) g1 = Inr g2
    \<and> assign_nan (map (\<lambda>(r, c). (r, c + 1)) (where_low el T)) g2 = Inr g3
    \<and> shape (Suc h) (Suc w) g3
    \<and> (\<forall>i<Suc h. \<forall>j<Suc w. g3 ! i ! j = (if masked_vertex el T i j then NaN else g ! i ! j))"
proof -
  let ?idh = "where_low el T"
  let ?bot = "map (\<lambda>(r, c). (r + 1, c)) ?idh" and ?rgt = "map (\<lambda>(r, c). (r, c + 1)) ?idh"
  have b1: "\<And>r c. (r, c) \<in> set ?idh \<Longrightarrow> r < Suc h \<and> c < Suc w"
    using low_cell_bounds[OF se] by (fastforce simp: set_where_low)
  have b2: "\<And>r c. (r, c) \<in> set ?bot \<Longrightarrow> r < Suc h \<and> c < Suc w"
    using low_cell_bounds[OF se] unfolding set_boundary_bottom by fastforce
  have b3: "\<And>r c. (r, c) \<in> set ?rgt \<Longrightarrow> r < Suc h \<and> c < Suc w"
    using low_cell_bounds[OF se] unfolding set_boundary_right by fastforce
  from assign_nan_shape[OF sg b1] obtain g1 where g1:
    "assign_nan ?idh g = Inr g1" "shape (Suc h) (Suc w) g1"
    "\<forall>i<Suc h. \<forall>j<Suc w. g1 ! i ! j = (if (i, j) \<in> set ?idh then NaN else g ! i ! j)"
    by blast
  from assign_nan_shape[OF g1(2) b2] obtain g2 where g2:
    "assign_nan ?bot g1 = Inr g2" "shape (Suc h) (Suc w) g2"
    "\<forall>i<Suc h. \<forall>j<Suc w. g2 ! i ! j = (if (i, j) \<in> set ?bot then NaN else g1 ! i ! j)"
    by blast
  from assign_nan_shape[OF g2(2) b3] obtain g3 where g3:
    "assign_nan ?rgt g2 = Inr g3" "shape (Suc h) (Suc w) g3"
    "\<forall>i<Suc h. \<forall>j<Suc w. g3 ! i ! j = (if (i, j) \<in> set ?rgt then NaN else g2 ! i ! j)"
    by blast
  have "\<forall>i<Suc h. \<forall>j<Suc w. g3 ! i ! j = (if masked_vertex el T i j then NaN else g ! i ! j)"
  proof (intro allI impI)
    fix i j assume i: "i < Suc h" and j: "j < Suc w"
    have "g3 ! i ! j = (if (i, j) \<in> set ?rgt then NaN
                        else if (i, j) \<in> set ?bot then NaN
                        else if (i, j) \<in> set ?idh then NaN else g ! i ! j)"
      using g1(3) g2(3) g3(3) i j by simp
    also have "\<dots> = (if masked_vertex el T i j then NaN else g ! i ! j)"
      unfolding set_boundary_bottom set_boundary_right
      by (auto simp: masked_vertex_def set_where_low)
    finally show "g3 ! i ! j = (if masked_vertex el T i j then NaN else g ! i ! j)" .
  qed
  with g1(1) g2(1) g3(1,2) show ?thesis by blast
qed

lemma mask_low_horizon_entries:
  assumes se: "shape h w el" and sf: "shape h w (astype_float frame)"
    and slo: "shape (Suc h) (Suc w) lon" and sla: "shape (Suc h) (Suc w) lat"
  shows "\<exists>f' lon' lat'. mask_low_horizon frame lon lat el T = Inr (f', lon', lat')
     \<and> shape h w f' \<and> shape (Suc h) (Suc w) lon' \<and> shape (Suc h) (Suc w) lat'
     \<and> (\<forall>r<h. \<forall>c<w. f' ! r ! c = (if low_cell el T r c then NaN else astype_float frame ! r ! c))
     \<and> (\<forall>i<Suc h. \<forall>j<Suc w.
            lon' ! i ! j = (if masked_vertex el T i j then NaN else lon ! i ! j)
          \<and> lat' ! i ! j = (if masked_vertex el T i j then NaN else lat ! i ! j))"
proof -
  let ?idh = "where_low el T"
  have b: "\<And>r c. (r, c) \<in> set ?idh \<Longrightarrow> r < h \<and> c < w"
    using low_cell_bounds[OF se] by (fastforce simp: set_where_low)
  from assign_nan_shape[OF sf b] obtain f' where f:
    "assign_nan ?idh (astype_float frame) = Inr f'" "shape h w f'"
    "\<forall>r<h. \<forall>c<w. f' ! r ! c = (if (r, c) \<in> set ?idh then NaN else astype_float frame ! r ! c)"
    by blast
  from map_assign_nan[OF slo se, of T] obtain lo1 lo2 lo3 where lo:
    "assign_nan ?idh lon = Inr lo1"
    "assign_nan (map (\<lambda>(r, c). (r + 1, c)) ?idh) lo1 = Inr lo2"
    "assign_nan (map (\<lambda>(r, c). (r, c + 1)) ?idh) lo2 = Inr lo3"
    "shape (Suc h) (Suc w) lo3"
    "\<forall>i<Suc h. \<forall>j<Suc w. lo3 ! i ! j = (if masked_vertex el T i j then NaN else lon ! i ! j)"
    by blast
  from map_assign_nan[OF sla se, of T] obtain la1 la2 la3 where la:
    "assign_nan ?idh lat = Inr la1"
    "assign_nan (map (\<lambda>(r, c). (r + 1, c)) ?idh) la1 = Inr la2"
    "assign_nan (map (\<lambda>(r, c). (r, c + 1)) ?idh) la2 = Inr la3"
    "shape (Suc h) (Suc w) la3"
    "\<forall>i<Suc h. \<forall>j<Suc w. la3 ! i ! j = (if masked_vertex el T i j then NaN else lat ! i ! j)"
    by blast
  have e: "mask_low_horizon frame lon lat el T = Inr (f', lo3, la3)"
    unfolding mask_low_horizon_def Let_def f(1) lo(1) la(1) sum.case lo(2) la(2) lo(3) la(3)
    by (rule refl)
  have "\<forall>r<h. \<forall>c<w. f' ! r ! c = (if low_cell el T r c then NaN else astype_float frame ! r ! c)"
    using f(3) by (simp add: set_where_low)
  with e f(2) lo(4,5) la(4,5) show ?thesis by blast
qed

section \<open>Masked cells and vertices\<close>

text \<open>
  C5, as amended. For a frame and an elevation grid of \<open>h\<close> rows and \<open>w\<close> columns and
  longitude and latitude grids of \<open>h + 1\<close> rows and \<open>w + 1\<close> columns, the masker returns:
  the frame converted to floating point, with not-a-number at the cells whose elevation
  is not-a-number or below the threshold and its own value elsewhere; and the two
  coordinate grids with not-a-number at the vertex of such a cell, at the vertex below
  it and at the vertex to its right, and their own values at every other vertex. The
  vertex at the row and the column after a low cell is not set on account of that cell.
\<close>

theorem mask_low_horizon_vertices:
  assumes "shape h w el_map" and "shape h w (astype_float frame)"
    and "shape (Suc h) (Suc w) lon_map" and "shape (Suc h) (Suc w) lat_map"
  shows "\<exists>f' lon' lat'.
       mask_low_horizon frame lon_map lat_map el_map min_elevation = Inr (f', lon', lat')
     \<and> shape h w f' \<and> shape (Suc h) (Suc w) lon' \<and> shape (Suc h) (Suc w) lat'
     \<and> (\<forall>r<h. \<forall>c<w. f' ! r ! c =
           (if low_cell el_map min_elevation r c then NaN else astype_float frame ! r ! c))
     \<and> (\<forall>i<Suc h. \<forall>j<Suc w.
            lon' ! i ! j = (if masked_vertex el_map min_elevation i j then NaN else lon_map ! i ! j)
          \<and> lat' ! i ! j = (if masked_vertex el_map min_elevation i j then NaN else lat_map ! i ! j))"
  using assms by (rule mask_low_horizon_entries)

theorem mask_low_horizon_vertices_counterexample:
  "low_cell [[NaN]] (Fin 10) 0 0
   \<and> mask_low_horizon (IntArray [[5]]) [[Fin 1, Fin 2], [Fin 3, Fin 4]]
        [[Fin 5, Fin 6], [Fin 7, Fin 8]] [[NaN]] (Fin 10) =
      Inr ([[NaN]], [[NaN, NaN], [NaN, Fin 4]], [[NaN, NaN], [NaN, Fin 8]])
   \<and> [[NaN, NaN], [NaN, Fin 4]] ! (0 + 1) ! (0 + 1) = Fin 4"
  by code_simp

theorem mask_low_horizon_vertices_witness:
  "shape 2 2 [[Fin 20, Fin 20], [Fin 5, Fin 20]]
   \<and> shape 2 2 (astype_float (IntArray [[1, 2], [3, 4]]))
   \<and> shape (Suc 2) (Suc 2) [[Fin 1, Fin 2, Fin 3], [Fin 4, Fin 5, Fin 6], [Fin 7, Fin 8, Fin 9]]
   \<and> low_cell [[Fin 20, Fin 20], [Fin 5, Fin 20]] (Fin 10) 1 0
   \<and> masked_vertex [[Fin 20, Fin 20], [Fin 5, Fin 20]] (Fin 10) 1 1
   \<and> \<not> masked_vertex [[Fin 20, Fin 20], [Fin 5, Fin 20]] (Fin 10) 2 1
   \<and> mask_low_horizon (IntArray [[1, 2], [3, 4]])
        [[Fin 1, Fin 2, Fin 3], [Fin 4, Fin 5, Fin 6], [Fin 7, Fin 8, Fin 9]]
        [[Fin 1, Fin 2, Fin 3], [Fin 4, Fin 5, Fin 6], [Fin 7, Fin 8, Fin 9]]
        [[Fin 20, Fin 20], [Fin 5, Fin 20]] (Fin 10) =
      Inr ([[Fin 1, Fin 2], [NaN, Fin 4]],
           [[Fin 1, Fin 2, Fin 3], [NaN, NaN, Fin 6], [NaN, Fin 8, Fin 9]],
           [[Fin 1, Fin 2, Fin 3], [NaN, NaN, Fin 6], [NaN, Fin 8, Fin 9]])"
proof -
  let ?el = "[[Fin 20, Fin 20], [Fin 5, Fin 20]]"
  let ?fr = "IntArray [[1, 2], [3, 4]]"
  let ?lo = "[[Fin 1, Fin 2, Fin 3], [Fin 4, Fin 5, Fin 6], [Fin 7, Fin 8, Fin 9]]"
  have s: "shape 2 2 ?el" "shape 2 2 (astype_float ?fr)" "shape (Suc 2) (Suc 2) ?lo"
    by (simp_all add: shape_def astype_float_def)
  have l: "low_cell ?el (Fin 10) 1 0" by (simp add: low_cell_def is_low_def)
  have m: "masked_vertex ?el (Fin 10) 1 1" "\<not> masked_vertex ?el (Fin 10) 2 1"
    by (simp_all add: masked_vertex_def low_cell_def is_low_def)
  have p: "mask_low_horizon ?fr ?lo ?lo ?el (Fin 10) =
      Inr ([[Fin 1, Fin 2], [NaN, Fin 4]],
           [[Fin 1, Fin 2, Fin 3], [NaN, NaN, Fin 6], [NaN, Fin 8, Fin 9]],
           [[Fin 1, Fin 2, Fin 3], [NaN, NaN, Fin 6], [NaN, Fin 8, Fin 9]])"
    by code_simp
  from mask_low_horizon_vertices[OF s(1,2,3,3), of "Fin 10"]
  have "\<exists>f' lon' lat'. mask_low_horizon ?fr ?lo ?lo ?el (Fin 10) = Inr (f', lon', lat')"
    by blast
  with s l m p show ?thesis by blast
qed

lemma fl_less_trans: "fl_less a b \<Longrightarrow> fl_less b c \<Longrightarrow> fl_less a c"
  by (cases a; cases b; cases c) simp_all

lemma low_cell_mono: "fl_less T1 T2 \<Longrightarrow> low_cell el T1 r c \<Longrightarrow> low_cell el T2 r c"
  by (auto simp: low_cell_def is_low_def intro: fl_less_trans)

lemma masked_vertex_mono:
  "fl_less T1 T2 \<Longrightarrow> masked_vertex el T1 i j \<Longrightarrow> masked_vertex el T2 i j"
  unfolding masked_vertex_def using low_cell_mono[of T1 T2 el] by blast

text \<open>
  C9. For two thresholds \<open>T1 < T2\<close>, every cell that the masker sets to not-a-number
  under \<open>T1\<close> it also sets under \<open>T2\<close>: a cell left alone under \<open>T2\<close> is left alone under
  \<open>T1\<close>, and an entry of the frame or of a coordinate grid that is a number in the
  result for \<open>T2\<close> is the same number in the result for \<open>T1\<close>.
\<close>

theorem mask_low_horizon_monotone:
  assumes lt: "fl_less T1 T2"
    and se: "shape h w el_map" and sf: "shape h w (astype_float frame)"
    and slo: "shape (Suc h) (Suc w) lon_map" and sla: "shape (Suc h) (Suc w) lat_map"
  shows "set (where_low el_map T1) \<subseteq> set (where_low el_map T2)
     \<and> (\<exists>f1 lon1 lat1 f2 lon2 lat2.
           mask_low_horizon frame lon_map lat_map el_map T1 = Inr (f1, lon1, lat1)
         \<and> mask_low_horizon frame lon_map lat_map el_map T2 = Inr (f2, lon2, lat2)
         \<and> (\<forall>r<h. \<forall>c<w. \<not> isnan (f2 ! r ! c) \<longrightarrow> f1 ! r ! c = f2 ! r ! c)
         \<and> (\<forall>i<Suc h. \<forall>j<Suc w.
               (\<not> isnan (lon2 ! i ! j) \<longrightarrow> lon1 ! i ! j = lon2 ! i ! j)
             \<and> (\<not> isnan (lat2 ! i ! j) \<longrightarrow> lat1 ! i ! j = lat2 ! i ! j)))"
proof -
  have sub: "set (where_low el_map T1) \<subseteq> set (where_low el_map T2)"
    using low_cell_mono[OF lt] by (auto simp: set_where_low)
  from mask_low_horizon_entries[OF se sf slo sla, of T1] obtain f1 lon1 lat1 where r1:
    "mask_low_horizon frame lon_map lat_map el_map T1 = Inr (f1, lon1, lat1)"
    "\<forall>r<h. \<forall>c<w. f1 ! r ! c = (if low_cell el_map T1 r c then NaN else astype_float frame ! r ! c)"
    "\<forall>i<Suc h. \<forall>j<Suc w.
        lon1 ! i ! j = (if masked_vertex el_map T1 i j then NaN else lon_map ! i ! j)
      \<and> lat1 ! i ! j = (if masked_vertex el_map T1 i j then NaN else lat_map ! i ! j)"
    by blast
  from mask_low_horizon_entries[OF se sf slo sla, of T2] obtain f2 lon2 lat2 where r2:
    "mask_low_horizon frame lon_map lat_map el_map T2 = Inr (f2, lon2, lat2)"
    "\<forall>r<h. \<forall>c<w. f2 ! r ! c = (if low_cell el_map T2 r c then NaN else astype_float frame ! r ! c)"
    "\<forall>i<Suc h. \<forall>j<Suc w.
        lon2 ! i ! j = (if masked_vertex el_map T2 i j then NaN else lon_map ! i ! j)
      \<and> lat2 ! i ! j = (if masked_vertex el_map T2 i j then NaN else lat_map ! i ! j)"
    by blast
  have a: "\<forall>r<h. \<forall>c<w. \<not> isnan (f2 ! r ! c) \<longrightarrow> f1 ! r ! c = f2 ! r ! c"
  proof (intro allI impI)
    fix r c assume rc: "r < h" "c < w" and n: "\<not> isnan (f2 ! r ! c)"
    from r2(2) rc have e2: "f2 ! r ! c = (if low_cell el_map T2 r c then NaN else astype_float frame ! r ! c)"
      by blast
    with n have l2: "\<not> low_cell el_map T2 r c" by (cases "low_cell el_map T2 r c") simp_all
    with low_cell_mono[OF lt] have l1: "\<not> low_cell el_map T1 r c" by blast
    from r1(2) rc have "f1 ! r ! c = (if low_cell el_map T1 r c then NaN else astype_float frame ! r ! c)"
      by blast
    with l1 l2 e2 show "f1 ! r ! c = f2 ! r ! c" by simp
  qed
  have b: "\<forall>i<Suc h. \<forall>j<Suc w.
               (\<not> isnan (lon2 ! i ! j) \<longrightarrow> lon1 ! i ! j = lon2 ! i ! j)
             \<and> (\<not> isnan (lat2 ! i ! j) \<longrightarrow> lat1 ! i ! j = lat2 ! i ! j)"
  proof (intro allI impI)
    fix i j assume ij: "i < Suc h" "j < Suc w"
    from r2(3) ij have e2:
      "lon2 ! i ! j = (if masked_vertex el_map T2 i j then NaN else lon_map ! i ! j)"
      "lat2 ! i ! j = (if masked_vertex el_map T2 i j then NaN else lat_map ! i ! j)"
      by blast+
    from r1(3) ij have e1:
      "lon1 ! i ! j = (if masked_vertex el_map T1 i j then NaN else lon_map ! i ! j)"
      "lat1 ! i ! j = (if masked_vertex el_map T1 i j then NaN else lat_map ! i ! j)"
      by blast+
    show "(\<not> isnan (lon2 ! i ! j) \<longrightarrow> lon1 ! i ! j = lon2 ! i ! j)
             \<and> (\<not> isnan (lat2 ! i ! j) \<longrightarrow> lat1 ! i ! j = lat2 ! i ! j)"
    proof (cases "masked_vertex el_map T2 i j")
      case True
      then show ?thesis by (simp add: e2)
    next
      case False
      with masked_vertex_mono[OF lt] have "\<not> masked_vertex el_map T1 i j" by blast
      with False show ?thesis by (simp add: e1 e2)
    qed
  qed
  from sub r1(1) r2(1) a b show ?thesis by blast
qed

theorem mask_low_horizon_monotone_witness:
  "fl_less (Fin 3) (Fin 10)
   \<and> shape 1 2 [[Fin 5, Fin 20]] \<and> shape 1 2 (astype_float (IntArray [[1, 2]]))
   \<and> shape (Suc 1) (Suc 2) [[Fin 1, Fin 2, Fin 3], [Fin 4, Fin 5, Fin 6]]
   \<and> set (where_low [[Fin 5, Fin 20]] (Fin 3)) \<subseteq> set (where_low [[Fin 5, Fin 20]] (Fin 10))
   \<and> where_low [[Fin 5, Fin 20]] (Fin 3) = []
   \<and> where_low [[Fin 5, Fin 20]] (Fin 10) = [(0, 0)]
   \<and> mask_low_horizon (IntArray [[1, 2]]) [[Fin 1, Fin 2, Fin 3], [Fin 4, Fin 5, Fin 6]]
        [[Fin 1, Fin 2, Fin 3], [Fin 4, Fin 5, Fin 6]] [[Fin 5, Fin 20]] (Fin 3) =
      Inr ([[Fin 1, Fin 2]], [[Fin 1, Fin 2, Fin 3], [Fin 4, Fin 5, Fin 6]],
           [[Fin 1, Fin 2, Fin 3], [Fin 4, Fin 5, Fin 6]])
   \<and> mask_low_horizon (IntArray [[1, 2]]) [[Fin 1, Fin 2, Fin 3], [Fin 4, Fin 5, Fin 6]]
        [[Fin 1, Fin 2, Fin 3], [Fin 4, Fin 5, Fin 6]] [[Fin 5, Fin 20]] (Fin 10) =
      Inr ([[NaN, Fin 2]], [[NaN, NaN, Fin 3], [NaN, Fin 5, Fin 6]],
           [[NaN, NaN, Fin 3], [NaN, Fin 5, Fin 6]])"
proof -
  let ?el = "[[Fin 5, Fin 20]]" and ?fr = "IntArray [[1, 2]]"
  let ?lo = "[[Fin 1, Fin 2, Fin 3], [Fin 4, Fin 5, Fin 6]]"
  have lt: "fl_less (Fin 3) (Fin 10)" by simp
  have s: "shape 1 2 ?el" "shape 1 2 (astype_float ?fr)" "shape (Suc 1) (Suc 2) ?lo"
    by (simp_all add: shape_def astype_float_def)
  have w: "where_low ?el (Fin 3) = []" "where_low ?el (Fin 10) = [(0, 0)]" by code_simp+
  have p: "mask_low_horizon ?fr ?lo ?lo ?el (Fin 3) = Inr ([[Fin 1, Fin 2]], ?lo, ?lo)"
    "mask_low_horizon ?fr ?lo ?lo ?el (Fin 10) =
      Inr ([[NaN, Fin 2]], [[NaN, NaN, Fin 3], [NaN, Fin 5, Fin 6]],
           [[NaN, NaN, Fin 3], [NaN, Fin 5, Fin 6]])"
    by code_simp+
  from mask_low_horizon_monotone[OF lt s(1,2,3,3)]
  have "set (where_low ?el (Fin 3)) \<subseteq> set (where_low ?el (Fin 10))" by blast
  with lt s w p show ?thesis by blast
qed

section \<open>The masker on the heap\<close>

lemma sum_case_Inr:
  "(case s of Inl e \<Rightarrow> Inl e | Inr v \<Rightarrow> f v) = Inr r \<Longrightarrow> \<exists>v. s = Inr v \<and> f v = Inr r"
  by (cases s) simp_all

lemma store_nan_other:
  assumes "store_nan a idx h = Inr h'"
  shows "length h' = length h" "\<And>b. b \<noteq> a \<Longrightarrow> h' ! b = h ! b"
  using assms by (auto simp: store_nan_def split: array.splits sum.splits)

lemma store_nan_old:
  assumes "store_nan a idx h = Inr h'" "n \<le> a" "\<forall>b<n. h ! b = g ! b" "n \<le> length h"
  shows "(\<forall>b<n. h' ! b = g ! b) \<and> n \<le> length h' \<and> length h' = length h"
  using store_nan_other[OF assms(1)] assms(2,3,4) by auto

text \<open>
  C8. A call of the masker that returns leaves every array that was on the heap before
  the call as it was, the frame and the two coordinate grids of the caller among them;
  the three arrays it returns are new ones.
\<close>

theorem mask_low_horizon_heap_unchanged:
  assumes call: "mask_low_horizon_heap h frame lon_map lat_map el_map min_elevation =
     Inr (h', frame_copy, lon_map_copy, lat_map_copy)"
  shows "(\<forall>a<length h. h' ! a = h ! a)
     \<and> length h \<le> frame_copy \<and> length h \<le> lon_map_copy \<and> length h \<le> lat_map_copy
     \<and> frame_copy < length h' \<and> lon_map_copy < length h' \<and> lat_map_copy < length h'"
proof -
  let ?n = "length h"
  let ?idh = "where_low (astype_float (h ! el_map)) min_elevation"
  let ?bot = "map (\<lambda>(r, c). (r + 1, c)) ?idh" and ?rgt = "map (\<lambda>(r, c). (r, c + 1)) ?idh"
  define h1 where "h1 = h @ [h ! frame]"
  define h2 where "h2 = h1 @ [h1 ! lon_map]"
  define h3 where "h3 = h2 @ [h2 ! lat_map]"
  define h4 where "h4 = h3 @ [FloatArray (astype_float (h3 ! ?n))]"
  have l4: "length h4 = Suc (Suc (Suc (Suc ?n)))" by (simp add: h4_def h3_def h2_def h1_def)
  have o4: "\<forall>b<?n. h4 ! b = h ! b" by (simp add: h4_def h3_def h2_def h1_def nth_append)
  have unf: "mask_low_horizon_heap h frame lon_map lat_map el_map min_elevation =
     (case store_nan (Suc (Suc (Suc ?n))) ?idh h4 of Inl e \<Rightarrow> Inl e | Inr h5 \<Rightarrow>
      (case store_nan (Suc ?n) ?idh h5 of Inl e \<Rightarrow> Inl e | Inr h6 \<Rightarrow>
      (case store_nan (Suc (Suc ?n)) ?idh h6 of Inl e \<Rightarrow> Inl e | Inr h7 \<Rightarrow>
      (case store_nan (Suc ?n) ?bot h7 of Inl e \<Rightarrow> Inl e | Inr h8 \<Rightarrow>
      (case store_nan (Suc (Suc ?n)) ?bot h8 of Inl e \<Rightarrow> Inl e | Inr h9 \<Rightarrow>
      (case store_nan (Suc ?n) ?rgt h9 of Inl e \<Rightarrow> Inl e | Inr h10 \<Rightarrow>
      (case store_nan (Suc (Suc ?n)) ?rgt h10 of Inl e \<Rightarrow> Inl e | Inr h11 \<Rightarrow>
         Inr (h11, Suc (Suc (Suc ?n)), Suc ?n, Suc (Suc ?n)))))))))"
    by (simp add: mask_low_horizon_heap_def alloc_def Let_def h4_def h3_def h2_def h1_def
        cong: sum.case_cong)
  note c0 = call[unfolded unf]
  from sum_case_Inr[OF c0] obtain h5 where s1: "store_nan (Suc (Suc (Suc ?n))) ?idh h4 = Inr h5"
    and c1: "(case store_nan (Suc ?n) ?idh h5 of Inl e \<Rightarrow> Inl e | Inr h6 \<Rightarrow>
      (case store_nan (Suc (Suc ?n)) ?idh h6 of Inl e \<Rightarrow> Inl e | Inr h7 \<Rightarrow>
      (case store_nan (Suc ?n) ?bot h7 of Inl e \<Rightarrow> Inl e | Inr h8 \<Rightarrow>
      (case store_nan (Suc (Suc ?n)) ?bot h8 of Inl e \<Rightarrow> Inl e | Inr h9 \<Rightarrow>
      (case store_nan (Suc ?n) ?rgt h9 of Inl e \<Rightarrow> Inl e | Inr h10 \<Rightarrow>
      (case store_nan (Suc (Suc ?n)) ?rgt h10 of Inl e \<Rightarrow> Inl e | Inr h11 \<Rightarrow>
         Inr (h11, Suc (Suc (Suc ?n)), Suc ?n, Suc (Suc ?n)))))))) =
       Inr (h', frame_copy, lon_map_copy, lat_map_copy)"
    by blast
  from sum_case_Inr[OF c1] obtain h6 where s2: "store_nan (Suc ?n) ?idh h5 = Inr h6"
    and c2: "(case store_nan (Suc (Suc ?n)) ?idh h6 of Inl e \<Rightarrow> Inl e | Inr h7 \<Rightarrow>
      (case store_nan (Suc ?n) ?bot h7 of Inl e \<Rightarrow> Inl e | Inr h8 \<Rightarrow>
      (case store_nan (Suc (Suc ?n)) ?bot h8 of Inl e \<Rightarrow> Inl e | Inr h9 \<Rightarrow>
      (case store_nan (Suc ?n) ?rgt h9 of Inl e \<Rightarrow> Inl e | Inr h10 \<Rightarrow>
      (case store_nan (Suc (Suc ?n)) ?rgt h10 of Inl e \<Rightarrow> Inl e | Inr h11 \<Rightarrow>
         Inr (h11, Suc (Suc (Suc ?n)), Suc ?n, Suc (Suc ?n))))))) =
       Inr (h', frame_copy, lon_map_copy, lat_map_copy)"
    by blast
  from sum_case_Inr[OF c2] obtain h7 where s3: "store_nan (Suc (Suc ?n)) ?idh h6 = Inr h7"
    and c3: "(case store_nan (Suc ?n) ?bot h7 of Inl e \<Rightarrow> Inl e | Inr h8 \<Rightarrow>
      (case store_nan (Suc (Suc ?n)) ?bot h8 of Inl e \<Rightarrow> Inl e | Inr h9 \<Rightarrow>
      (case store_nan (Suc ?n) ?rgt h9 of Inl e \<Rightarrow> Inl e | Inr h10 \<Rightarrow>
      (case store_nan (Suc (Suc ?n)) ?rgt h10 of Inl e \<Rightarrow> Inl e | Inr h11 \<Rightarrow>
         Inr (h11, Suc (Suc (Suc ?n)), Suc ?n, Suc (Suc ?n)))))) =
       Inr (h', frame_copy, lon_map_copy, lat_map_copy)"
    by blast
  from sum_case_Inr[OF c3] obtain h8 where s4: "store_nan (Suc ?n) ?bot h7 = Inr h8"
    and c4: "(case store_nan (Suc (Suc ?n)) ?bot h8 of Inl e \<Rightarrow> Inl e | Inr h9 \<Rightarrow>
      (case store_nan (Suc ?n) ?rgt h9 of Inl e \<Rightarrow> Inl e | Inr h10 \<Rightarrow>
      (case store_nan (Suc (Suc ?n)) ?rgt h10 of Inl e \<Rightarrow> Inl e | Inr h11 \<Rightarrow>
         Inr (h11, Suc (Suc (Suc ?n)), Suc ?n, Suc (Suc ?n))))) =
       Inr (h', frame_copy, lon_map_copy, lat_map_copy)"
    by blast
  from sum_case_Inr[OF c4] obtain h9 where s5: "store_nan (Suc (Suc ?n)) ?bot h8 = Inr h9"
    and c5: "(case store_nan (Suc ?n) ?rgt h9 of Inl e \<Rightarrow> Inl e | Inr h10 \<Rightarrow>
      (case store_nan (Suc (Suc ?n)) ?rgt h10 of Inl e \<Rightarrow> Inl e | Inr h11 \<Rightarrow>
         Inr (h11, Suc (Suc (Suc ?n)), Suc ?n, Suc (Suc ?n)))) =
       Inr (h', frame_copy, lon_map_copy, lat_map_copy)"
    by blast
  from sum_case_Inr[OF c5] obtain h10 where s6: "store_nan (Suc ?n) ?rgt h9 = Inr h10"
    and c6: "(case store_nan (Suc (Suc ?n)) ?rgt h10 of Inl e \<Rightarrow> Inl e | Inr h11 \<Rightarrow>
         Inr (h11, Suc (Suc (Suc ?n)), Suc ?n, Suc (Suc ?n))) =
       Inr (h', frame_copy, lon_map_copy, lat_map_copy)"
    by blast
  from sum_case_Inr[OF c6] obtain h11 where s7: "store_nan (Suc (Suc ?n)) ?rgt h10 = Inr h11"
    and c7: "Inr (h11, Suc (Suc (Suc ?n)), Suc ?n, Suc (Suc ?n)) =
       (Inr (h', frame_copy, lon_map_copy, lat_map_copy) :: error + heap \<times> nat \<times> nat \<times> nat)"
    by blast
  from c7 have adr: "h11 = h'" "frame_copy = Suc (Suc (Suc ?n))" "lon_map_copy = Suc ?n"
    "lat_map_copy = Suc (Suc ?n)" by simp_all
  note st = s1 s2 s3 s4 s5 s6 s7[unfolded adr(1)]
  have n4: "?n \<le> length h4" using l4 by simp
  note s5 = store_nan_old[OF st(1) _ o4 n4]
  have o5: "(\<forall>b<?n. h5 ! b = h ! b) \<and> ?n \<le> length h5 \<and> length h5 = length h4" by (rule s5) simp
  have o6: "(\<forall>b<?n. h6 ! b = h ! b) \<and> ?n \<le> length h6 \<and> length h6 = length h5"
    by (rule store_nan_old[OF st(2)]) (use o5 in simp_all)
  have o7: "(\<forall>b<?n. h7 ! b = h ! b) \<and> ?n \<le> length h7 \<and> length h7 = length h6"
    by (rule store_nan_old[OF st(3)]) (use o6 in simp_all)
  have o8: "(\<forall>b<?n. h8 ! b = h ! b) \<and> ?n \<le> length h8 \<and> length h8 = length h7"
    by (rule store_nan_old[OF st(4)]) (use o7 in simp_all)
  have o9: "(\<forall>b<?n. h9 ! b = h ! b) \<and> ?n \<le> length h9 \<and> length h9 = length h8"
    by (rule store_nan_old[OF st(5)]) (use o8 in simp_all)
  have o10: "(\<forall>b<?n. h10 ! b = h ! b) \<and> ?n \<le> length h10 \<and> length h10 = length h9"
    by (rule store_nan_old[OF st(6)]) (use o9 in simp_all)
  have o11: "(\<forall>b<?n. h' ! b = h ! b) \<and> ?n \<le> length h' \<and> length h' = length h10"
    by (rule store_nan_old[OF st(7)]) (use o10 in simp_all)
  have "length h' = Suc (Suc (Suc (Suc ?n)))" using o5 o6 o7 o8 o9 o10 o11 l4 by simp
  with o11 adr(2,3,4) show ?thesis by simp
qed

section \<open>The compressor on the heap\<close>

lemma valid_cols_nonzero:
  assumes "shape h w x" "shape h w y" "i < h"
  shows "valid_cols x y i = nonzero (mask x y ! i)"
proof -
  have lm: "length (mask x y ! i) = w" using assms by (simp add: shape_row[OF mask_shape])
  have lx: "length (x ! i) = w" using assms by (simp add: shape_row)
  have "filter (\<lambda>j. valid_at x y i j) [0..<w] = filter (\<lambda>j. mask x y ! i ! j) [0..<w]"
    by (rule filter_cong) (use assms in \<open>simp_all add: mask_nth\<close>)
  then show ?thesis by (simp add: valid_cols_def nonzero_def lm lx)
qed

lemma valid_rows_filter:
  "valid_rows i ms = filter (\<lambda>k. nonzero (ms ! (k - i)) \<noteq> []) [i..<i + length ms]"
proof (induction ms arbitrary: i)
  case Nil
  show ?case by simp
next
  case (Cons m ms)
  define n where "n = Suc i + length ms"
  have "i < i + length (m # ms)" by simp
  from upt_conv_Cons[OF this]
  have u: "[i..<i + length (m # ms)] = i # [Suc i..<n]" by (simp add: n_def)
  have c: "filter (\<lambda>k. nonzero ((m # ms) ! (k - i)) \<noteq> []) [Suc i..<n] =
           filter (\<lambda>k. nonzero (ms ! (k - Suc i)) \<noteq> []) [Suc i..<n]"
  proof (rule filter_cong)
    fix k assume "k \<in> set [Suc i..<n]"
    then have "k - i = Suc (k - Suc i)" by auto
    then show "(nonzero ((m # ms) ! (k - i)) \<noteq> []) = (nonzero (ms ! (k - Suc i)) \<noteq> [])"
      by simp
  qed simp
  have ih: "valid_rows (Suc i) ms = filter (\<lambda>k. nonzero (ms ! (k - Suc i)) \<noteq> []) [Suc i..<n]"
    unfolding n_def by (rule Cons.IH)
  show ?case unfolding u by (simp add: c ih)
qed

lemma valid_row_list_mask:
  assumes "shape h w x" "shape h w y"
  shows "valid_row_list x y = valid_rows 0 (mask x y)"
proof -
  have lm: "length (mask x y) = h" using assms by (simp add: shape_length[OF mask_shape])
  have lx: "length x = h" using assms by (simp add: shape_length)
  have "filter (\<lambda>i. valid_cols x y i \<noteq> []) [0..<h] =
        filter (\<lambda>k. nonzero (mask x y ! k) \<noteq> []) [0..<h]"
    by (rule filter_cong) (use assms in \<open>simp_all add: valid_cols_nonzero\<close>)
  then show ?thesis by (simp add: valid_row_list_def valid_rows_filter lm lx)
qed

lemma clamped_row_fix:
  assumes sx: "shape h w x" and sy: "shape h w y" and sg: "shape h w g" and i: "i < h"
  shows "clamped_row x y g i = row_fix (mask x y ! i) (g ! i)"
proof -
  let ?m = "mask x y ! i"
  have lm: "length ?m = length (g ! i)"
    using sx sy sg i by (simp add: shape_row[OF mask_shape] shape_row)
  have vc: "valid_cols x y i = nonzero ?m" using sx sy i by (rule valid_cols_nonzero)
  show ?thesis
  proof (cases "nonzero ?m = []")
    case True
    then show ?thesis by (simp add: clamped_row_def vc row_fix_none)
  next
    case False
    show ?thesis
    proof (rule nth_equalityI)
      show "length (clamped_row x y g i) = length (row_fix ?m (g ! i))"
        using False by (simp add: clamped_row_def Let_def vc length_row_fix[OF lm])
    next
      fix j assume "j < length (clamped_row x y g i)"
      then have j: "j < length (g ! i)" using False by (simp add: clamped_row_def Let_def vc)
      show "clamped_row x y g i ! j = row_fix ?m (g ! i) ! j"
        using False j by (simp add: clamped_row_def Let_def vc nth_row_fix[OF lm j])
    qed
  qed
qed

lemma compressed_rows:
  fixes x y g :: grid
  defines "vs \<equiv> valid_rows 0 (mask x y)"
  defines "g1 \<equiv> map2 row_fix (mask x y) g"
  assumes sx: "shape h w x" and sy: "shape h w y" and sg: "shape h w g"
    and two: "2 \<le> length vs"
  shows "assign_rows_from (Some (last vs)) (foldl fmax NaN (g1 ! last vs))
           (assign_rows_before (Some (hd vs)) (foldl fmax NaN (g1 ! hd vs)) g1) =
         compressed x y g"
proof -
  let ?M = "mask x y"
  let ?t = "hd vs" and ?b = "last vs"
  have sm: "shape h w ?M" using sx sy by (rule mask_shape)
  have ne: "vs \<noteq> []" using two by auto
  have setvs: "set vs = {k. k < h \<and> nonzero (?M ! k) \<noteq> []}"
    unfolding vs_def using sx sy by (rule valid_rows_mask)
  have srt: "sorted_wrt (<) vs" unfolding vs_def by (rule sorted_valid_rows)
  have "?t \<in> set vs" "?b \<in> set vs" using ne by simp_all
  then have t: "?t < h" and b: "?b < h" by (simp_all add: setvs)
  have bo: "bottom_of vs = Some ?b"
    using two by (cases vs) (auto simp: bottom_of_def)
  have tb: "?t < ?b" using bottom_of_Some(3)[OF bo srt] .
  have s1: "shape h w g1" unfolding g1_def using sg sm by (rule shape_row_fix)
  have r1: "g1 ! i = clamped_row x y g i" if "i < h" for i
    unfolding g1_def using that sx sy sg sm
    by (simp add: nth_map2_row_fix clamped_row_fix)
  have vl: "valid_row_list x y = vs" unfolding vs_def using sx sy by (rule valid_row_list_mask)
  have lg: "length g = h" using sg by (rule shape_length)
  let ?x2 = "assign_rows_before (Some ?t) (foldl fmax NaN (g1 ! ?t)) g1"
  have s2: "shape h w ?x2" using s1 by (rule shape_rows_before)
  show ?thesis
  proof (rule nth_equalityI)
    show "length (assign_rows_from (Some ?b) (foldl fmax NaN (g1 ! ?b)) ?x2) = length (compressed x y g)"
      using shape_length[OF shape_rows_from[OF s2]] by (simp add: compressed_def Let_def lg)
  next
    fix i assume "i < length (assign_rows_from (Some ?b) (foldl fmax NaN (g1 ! ?b)) ?x2)"
    then have i: "i < h" using shape_length[OF shape_rows_from[OF s2]] by simp
    have wi: "length (g ! i) = w" using sg i by (rule shape_row)
    have l: "assign_rows_from (Some ?b) (foldl fmax NaN (g1 ! ?b)) ?x2 ! i =
          (if ?b \<le> i then replicate w (foldl fmax NaN (g1 ! ?b))
           else if i < ?t then replicate w (foldl fmax NaN (g1 ! ?t)) else g1 ! i)"
      by (simp add: nth_rows_from[OF s2 i] nth_rows_before[OF s1 i])
    have r: "compressed x y g ! i =
          (if i < ?t then replicate w (foldl fmax NaN (g1 ! ?t))
           else if ?b \<le> i then replicate w (foldl fmax NaN (g1 ! ?b)) else g1 ! i)"
      using i by (simp add: compressed_def Let_def lg vl wi r1[OF t] r1[OF b] r1[OF i])
    show "assign_rows_from (Some ?b) (foldl fmax NaN (g1 ! ?b)) ?x2 ! i = compressed x y g ! i"
      unfolding l r using tb by auto
  qed
qed

text \<open>
  With two valid rows at least, the assignments of the code leave in each array the
  compressed content as written entry by entry.
\<close>

lemma pcolormesh_nan_compressed:
  assumes sx: "shape h w x" and sy: "shape h w y" and two: "2 \<le> length (valid_row_list x y)"
  shows "pcolormesh_nan x y = Inr (compressed x y x, compressed x y y)"
proof -
  let ?vs = "valid_rows 0 (mask x y)"
  have vl: "valid_row_list x y = ?vs" using sx sy by (rule valid_row_list_mask)
  have two': "2 \<le> length ?vs" using two by (simp add: vl)
  have ne: "?vs \<noteq> []" using two' by auto
  have bo: "bottom_of ?vs = Some (last ?vs)"
    using two' by (cases ?vs) (auto simp: bottom_of_def)
  show ?thesis
    unfolding pcolormesh_nan_valid[OF sx sy ne] bo option.case
    by (simp only: compressed_rows[OF sx sy sx two'] compressed_rows[OF sx sy sy two'])
qed

lemma modify_x:
  assumes "x \<noteq> y" "x < length h" "y < length h"
  shows "modify x f (h[x := FloatArray gx, y := FloatArray gy]) =
         h[x := FloatArray (f gx), y := FloatArray gy]"
  using assms
  by (intro nth_equalityI) (auto simp: modify_def astype_float_def nth_list_update)

lemma modify_y:
  assumes "x \<noteq> y" "x < length h" "y < length h"
  shows "modify y f (h[x := FloatArray gx, y := FloatArray gy]) =
         h[x := FloatArray gx, y := FloatArray (f gy)]"
  using assms
  by (intro nth_equalityI) (auto simp: modify_def astype_float_def nth_list_update)

lemma read_x:
  "x \<noteq> y \<Longrightarrow> x < length h \<Longrightarrow> y < length h \<Longrightarrow>
   astype_float (h[x := FloatArray gx, y := FloatArray gy] ! x) = gx"
  by (simp add: astype_float_def)

lemma read_y:
  "x \<noteq> y \<Longrightarrow> x < length h \<Longrightarrow> y < length h \<Longrightarrow>
   astype_float (h[x := FloatArray gx, y := FloatArray gy] ! y) = gy"
  by (simp add: astype_float_def)

lemma rows_loop_heap_sim:
  assumes "x \<noteq> y" "x < length h" "y < length h"
  shows "rows_loop_heap i ms x y (h[x := FloatArray gx, y := FloatArray gy]) tp bt =
     (case rows_loop i ms gx gy tp bt of
        (gx', gy', tp', bt') \<Rightarrow> (h[x := FloatArray gx', y := FloatArray gy'], tp', bt'))"
proof (induction ms arbitrary: i gx gy tp bt)
  case Nil
  show ?case by simp
next
  case (Cons m ms)
  show ?case
    by (simp add: Let_def modify_x[OF assms] modify_y[OF assms] Cons.IH)
qed

text \<open>
  On two distinct float arrays the statements on the heap do to the arrays at \<open>x\<close> and
  \<open>y\<close> what the statements on values do, and fail where they fail.
\<close>

lemma pcolormesh_nan_heap_sim:
  assumes a: "x \<noteq> y" "x < length h" "y < length h"
  shows "pcolormesh_nan_heap (h[x := FloatArray gx, y := FloatArray gy]) x y c =
     (case pcolormesh_nan_call gx gy of
        Inl e \<Rightarrow> Inl e
      | Inr (gx', gy') \<Rightarrow> Inr (h[x := FloatArray gx', y := FloatArray gy']))"
proof -
  obtain x1 y1 tp bt where l: "rows_loop 0 (mask gx gy) gx gy None None = (x1, y1, tp, bt)"
    by (cases "rows_loop 0 (mask gx gy) gx gy None None") auto
  have lh: "rows_loop_heap 0 (mask gx gy) x y (h[x := FloatArray gx, y := FloatArray gy]) None None =
      (h[x := FloatArray x1, y := FloatArray y1], tp, bt)"
    by (simp add: rows_loop_heap_sim[OF a] l)
  show ?thesis
    unfolding pcolormesh_nan_heap_def pcolormesh_nan_call_def pcolormesh_nan_def
      read_x[OF a] read_y[OF a] lh l prod.case
    by (simp add: Let_def modify_x[OF a] modify_y[OF a] read_x[OF a] read_y[OF a]
        split: sum.splits option.splits)
qed

lemma heap_after:
  assumes xy: "x \<noteq> y" and lx: "x < length h" and ly: "y < length h"
  shows "length (h[x := FloatArray gx', y := FloatArray gy']) = length h
     \<and> h[x := FloatArray gx', y := FloatArray gy'] ! x = FloatArray gx'
     \<and> h[x := FloatArray gx', y := FloatArray gy'] ! y = FloatArray gy'
     \<and> (\<forall>a. a \<noteq> x \<and> a \<noteq> y \<longrightarrow> h[x := FloatArray gx', y := FloatArray gy'] ! a = h ! a)"
  using assms by simp

text \<open>
  C10. Called with the addresses of two distinct float arrays \<open>x\<close> and \<open>y\<close> of one
  common shape, the compressor writes into these two arrays. When the grids have two
  valid rows at least and the rendering call accepts the compressed content, the call
  returns with that content, as written entry by entry in \<open>compressed\<close>, in the array
  at \<open>x\<close> and in the array at \<open>y\<close>. In general, when the call on the values returns
  with final contents \<open>gx'\<close> and \<open>gy'\<close>, the call on the heap returns and the arrays at
  \<open>x\<close> and \<open>y\<close> hold \<open>gx'\<close> and \<open>gy'\<close>; when it raises, so does the call on the heap.
  After a call that returns every other array of the heap, the frame \<open>c\<close> among them
  when it is a third array, is as before.
\<close>

theorem pcolormesh_nan_heap_in_place:
  assumes xy: "x \<noteq> y" and lx: "x < length h" and ly: "y < length h"
    and hx: "h ! x = FloatArray gx" and hy: "h ! y = FloatArray gy"
    and sx: "shape n w gx" and sy: "shape n w gy"
  shows "(2 \<le> length (valid_row_list gx gy)
          \<and> ax_pcolormesh (compressed gx gy gx) (compressed gx gy gy) = None \<longrightarrow>
           (\<exists>h'. pcolormesh_nan_heap h x y c = Inr h' \<and> length h' = length h
              \<and> h' ! x = FloatArray (compressed gx gy gx)
              \<and> h' ! y = FloatArray (compressed gx gy gy)
              \<and> (\<forall>a. a \<noteq> x \<and> a \<noteq> y \<longrightarrow> h' ! a = h ! a)
              \<and> (c \<noteq> x \<and> c \<noteq> y \<longrightarrow> h' ! c = h ! c)))
       \<and> (\<forall>gx' gy'. pcolormesh_nan_call gx gy = Inr (gx', gy') \<longrightarrow>
           (\<exists>h'. pcolormesh_nan_heap h x y c = Inr h' \<and> length h' = length h
              \<and> h' ! x = FloatArray gx' \<and> h' ! y = FloatArray gy'
              \<and> (\<forall>a. a \<noteq> x \<and> a \<noteq> y \<longrightarrow> h' ! a = h ! a)
              \<and> (c \<noteq> x \<and> c \<noteq> y \<longrightarrow> h' ! c = h ! c)))
       \<and> (\<forall>e. pcolormesh_nan_call gx gy = Inl e \<longrightarrow> pcolormesh_nan_heap h x y c = Inl e)"
proof -
  have hh: "h[x := FloatArray gx, y := FloatArray gy] = h"
    using hx hy by (metis list_update_id)
  have sim: "pcolormesh_nan_heap h x y c =
     (case pcolormesh_nan_call gx gy of
        Inl e \<Rightarrow> Inl e
      | Inr (gx', gy') \<Rightarrow> Inr (h[x := FloatArray gx', y := FloatArray gy']))"
    using pcolormesh_nan_heap_sim[OF xy lx ly, of gx gy c] by (simp only: hh)
  have ret: "\<exists>h'. pcolormesh_nan_heap h x y c = Inr h' \<and> length h' = length h
              \<and> h' ! x = FloatArray gx' \<and> h' ! y = FloatArray gy'
              \<and> (\<forall>a. a \<noteq> x \<and> a \<noteq> y \<longrightarrow> h' ! a = h ! a)
              \<and> (c \<noteq> x \<and> c \<noteq> y \<longrightarrow> h' ! c = h ! c)"
    if r: "pcolormesh_nan_call gx gy = Inr (gx', gy')" for gx' gy'
  proof -
    have e: "pcolormesh_nan_heap h x y c = Inr (h[x := FloatArray gx', y := FloatArray gy'])"
      by (simp add: sim r)
    show ?thesis
      unfolding e using heap_after[OF xy lx ly, of gx' gy'] by blast
  qed
  have cmp: "pcolormesh_nan_call gx gy = Inr (compressed gx gy gx, compressed gx gy gy)"
    if two: "2 \<le> length (valid_row_list gx gy)"
      and ok: "ax_pcolormesh (compressed gx gy gx) (compressed gx gy gy) = None"
    by (simp add: pcolormesh_nan_call_def pcolormesh_nan_compressed[OF sx sy two] ok)
  show ?thesis
  proof (intro conjI allI impI)
    assume "2 \<le> length (valid_row_list gx gy)
          \<and> ax_pcolormesh (compressed gx gy gx) (compressed gx gy gy) = None"
    then have "pcolormesh_nan_call gx gy = Inr (compressed gx gy gx, compressed gx gy gy)"
      using cmp by blast
    then show "\<exists>h'. pcolormesh_nan_heap h x y c = Inr h' \<and> length h' = length h
              \<and> h' ! x = FloatArray (compressed gx gy gx)
              \<and> h' ! y = FloatArray (compressed gx gy gy)
              \<and> (\<forall>a. a \<noteq> x \<and> a \<noteq> y \<longrightarrow> h' ! a = h ! a)
              \<and> (c \<noteq> x \<and> c \<noteq> y \<longrightarrow> h' ! c = h ! c)"
      by (rule ret)
  next
    fix gx' gy' assume "pcolormesh_nan_call gx gy = Inr (gx', gy')"
    then show "\<exists>h'. pcolormesh_nan_heap h x y c = Inr h' \<and> length h' = length h
              \<and> h' ! x = FloatArray gx' \<and> h' ! y = FloatArray gy'
              \<and> (\<forall>a. a \<noteq> x \<and> a \<noteq> y \<longrightarrow> h' ! a = h ! a)
              \<and> (c \<noteq> x \<and> c \<noteq> y \<longrightarrow> h' ! c = h ! c)"
      by (rule ret)
  next
    fix e assume "pcolormesh_nan_call gx gy = Inl e"
    then show "pcolormesh_nan_heap h x y c = Inl e" by (simp add: sim)
  qed
qed

lemma list_of_three: "length l = Suc (Suc (Suc 0)) \<Longrightarrow> l = [l ! 0, l ! 1, l ! 2]"
  by (auto simp: length_Suc_conv)

theorem pcolormesh_nan_heap_in_place_witness:
  "shape 5 4 [[NaN, NaN, NaN, NaN], [NaN, Fin 1, Fin 2, NaN], [NaN, NaN, Fin 3, NaN], [Fin 7, NaN, NaN, Fin 8], [NaN, NaN, NaN, NaN]]
   \<and> shape 5 4 [[NaN, NaN, NaN, NaN], [NaN, Fin 11, Fin 12, NaN], [NaN, NaN, Fin 13, NaN], [Fin 17, NaN, NaN, Fin 18], [NaN, NaN, NaN, NaN]]
   \<and> valid_row_list [[NaN, NaN, NaN, NaN], [NaN, Fin 1, Fin 2, NaN], [NaN, NaN, Fin 3, NaN], [Fin 7, NaN, NaN, Fin 8], [NaN, NaN, NaN, NaN]]
        [[NaN, NaN, NaN, NaN], [NaN, Fin 11, Fin 12, NaN], [NaN, NaN, Fin 13, NaN], [Fin 17, NaN, NaN, Fin 18], [NaN, NaN, NaN, NaN]] = [1, 2, 3]
   \<and> compressed [[NaN, NaN, NaN, NaN], [NaN, Fin 1, Fin 2, NaN], [NaN, NaN, Fin 3, NaN], [Fin 7, NaN, NaN, Fin 8], [NaN, NaN, NaN, NaN]]
        [[NaN, NaN, NaN, NaN], [NaN, Fin 11, Fin 12, NaN], [NaN, NaN, Fin 13, NaN], [Fin 17, NaN, NaN, Fin 18], [NaN, NaN, NaN, NaN]]
        [[NaN, NaN, NaN, NaN], [NaN, Fin 1, Fin 2, NaN], [NaN, NaN, Fin 3, NaN], [Fin 7, NaN, NaN, Fin 8], [NaN, NaN, NaN, NaN]] =
       [[Fin 2, Fin 2, Fin 2, Fin 2], [Fin 1, Fin 1, Fin 2, Fin 2], [Fin 3, Fin 3, Fin 3, Fin 3], [Fin 8, Fin 8, Fin 8, Fin 8], [Fin 8, Fin 8, Fin 8, Fin 8]]
   \<and> compressed [[NaN, NaN, NaN, NaN], [NaN, Fin 1, Fin 2, NaN], [NaN, NaN, Fin 3, NaN], [Fin 7, NaN, NaN, Fin 8], [NaN, NaN, NaN, NaN]]
        [[NaN, NaN, NaN, NaN], [NaN, Fin 11, Fin 12, NaN], [NaN, NaN, Fin 13, NaN], [Fin 17, NaN, NaN, Fin 18], [NaN, NaN, NaN, NaN]]
        [[NaN, NaN, NaN, NaN], [NaN, Fin 11, Fin 12, NaN], [NaN, NaN, Fin 13, NaN], [Fin 17, NaN, NaN, Fin 18], [NaN, NaN, NaN, NaN]] =
       [[Fin 12, Fin 12, Fin 12, Fin 12], [Fin 11, Fin 11, Fin 12, Fin 12], [Fin 13, Fin 13, Fin 13, Fin 13], [Fin 18, Fin 18, Fin 18, Fin 18], [Fin 18, Fin 18, Fin 18, Fin 18]]
   \<and> pcolormesh_nan_call [[NaN, NaN, NaN, NaN], [NaN, Fin 1, Fin 2, NaN], [NaN, NaN, Fin 3, NaN], [Fin 7, NaN, NaN, Fin 8], [NaN, NaN, NaN, NaN]]
        [[NaN, NaN, NaN, NaN], [NaN, Fin 11, Fin 12, NaN], [NaN, NaN, Fin 13, NaN], [Fin 17, NaN, NaN, Fin 18], [NaN, NaN, NaN, NaN]] =
       Inr ([[Fin 2, Fin 2, Fin 2, Fin 2], [Fin 1, Fin 1, Fin 2, Fin 2], [Fin 3, Fin 3, Fin 3, Fin 3], [Fin 8, Fin 8, Fin 8, Fin 8], [Fin 8, Fin 8, Fin 8, Fin 8]],
            [[Fin 12, Fin 12, Fin 12, Fin 12], [Fin 11, Fin 11, Fin 12, Fin 12], [Fin 13, Fin 13, Fin 13, Fin 13], [Fin 18, Fin 18, Fin 18, Fin 18], [Fin 18, Fin 18, Fin 18, Fin 18]])
   \<and> pcolormesh_nan_heap
        [FloatArray [[NaN, NaN, NaN, NaN], [NaN, Fin 1, Fin 2, NaN], [NaN, NaN, Fin 3, NaN], [Fin 7, NaN, NaN, Fin 8], [NaN, NaN, NaN, NaN]],
         FloatArray [[NaN, NaN, NaN, NaN], [NaN, Fin 11, Fin 12, NaN], [NaN, NaN, Fin 13, NaN], [Fin 17, NaN, NaN, Fin 18], [NaN, NaN, NaN, NaN]],
         IntArray [[1, 2, 3], [4, 5, 6], [7, 8, 9], [10, 11, 12]]] 0 1 2 =
       Inr [FloatArray [[Fin 2, Fin 2, Fin 2, Fin 2], [Fin 1, Fin 1, Fin 2, Fin 2], [Fin 3, Fin 3, Fin 3, Fin 3], [Fin 8, Fin 8, Fin 8, Fin 8], [Fin 8, Fin 8, Fin 8, Fin 8]],
            FloatArray [[Fin 12, Fin 12, Fin 12, Fin 12], [Fin 11, Fin 11, Fin 12, Fin 12], [Fin 13, Fin 13, Fin 13, Fin 13], [Fin 18, Fin 18, Fin 18, Fin 18], [Fin 18, Fin 18, Fin 18, Fin 18]],
            IntArray [[1, 2, 3], [4, 5, 6], [7, 8, 9], [10, 11, 12]]]
   \<and> pcolormesh_nan_heap
        [FloatArray [[NaN, NaN, NaN], [Fin 1, Fin 2, Fin 3], [NaN, NaN, NaN]],
         FloatArray [[NaN, NaN, NaN], [Fin 4, Fin 5, Fin 6], [NaN, NaN, NaN]],
         IntArray [[1, 2, 3], [4, 5, 6], [7, 8, 9], [10, 11, 12]]] 0 1 2 =
       Inr [FloatArray [[Fin 3, Fin 3, Fin 3], [Fin 3, Fin 3, Fin 3], [Fin 3, Fin 3, Fin 3]],
            FloatArray [[Fin 6, Fin 6, Fin 6], [Fin 6, Fin 6, Fin 6], [Fin 6, Fin 6, Fin 6]],
            IntArray [[1, 2, 3], [4, 5, 6], [7, 8, 9], [10, 11, 12]]]
   \<and> pcolormesh_nan_heap [FloatArray [[NaN]], FloatArray [[NaN]], IntArray [[1, 2, 3], [4, 5, 6], [7, 8, 9], [10, 11, 12]]] 0 1 2 =
       Inl ValueError"
proof -
  let ?gx = "[[NaN, NaN, NaN, NaN], [NaN, Fin 1, Fin 2, NaN], [NaN, NaN, Fin 3, NaN], [Fin 7, NaN, NaN, Fin 8], [NaN, NaN, NaN, NaN]]"
  let ?gy = "[[NaN, NaN, NaN, NaN], [NaN, Fin 11, Fin 12, NaN], [NaN, NaN, Fin 13, NaN], [Fin 17, NaN, NaN, Fin 18], [NaN, NaN, NaN, NaN]]"
  let ?lx = "[[Fin 2, Fin 2, Fin 2, Fin 2], [Fin 1, Fin 1, Fin 2, Fin 2], [Fin 3, Fin 3, Fin 3, Fin 3], [Fin 8, Fin 8, Fin 8, Fin 8], [Fin 8, Fin 8, Fin 8, Fin 8]]"
  let ?ly = "[[Fin 12, Fin 12, Fin 12, Fin 12], [Fin 11, Fin 11, Fin 12, Fin 12], [Fin 13, Fin 13, Fin 13, Fin 13], [Fin 18, Fin 18, Fin 18, Fin 18], [Fin 18, Fin 18, Fin 18, Fin 18]]"
  let ?c = "IntArray [[1, 2, 3], [4, 5, 6], [7, 8, 9], [10, 11, 12]]"
  let ?h = "[FloatArray ?gx, FloatArray ?gy, ?c]"
  have d: "(0::nat) \<noteq> 1" by simp
  have l: "0 < length ?h" "1 < length ?h" by simp_all
  have r: "?h ! 0 = FloatArray ?gx" "?h ! 1 = FloatArray ?gy" by simp_all
  have s: "shape 5 4 ?gx" "shape 5 4 ?gy" by (simp_all add: shape_def)
  have v: "valid_row_list ?gx ?gy = [1, 2, 3]" by code_simp
  have cx: "compressed ?gx ?gy ?gx = ?lx" by code_simp
  have cy: "compressed ?gx ?gy ?gy = ?ly" by code_simp
  have ok: "ax_pcolormesh ?lx ?ly = None" by (simp add: ax_pcolormesh_def)
  have two: "2 \<le> length (valid_row_list ?gx ?gy)" unfolding v by simp
  have run: "pcolormesh_nan_call ?gx ?gy = Inr (?lx, ?ly)" by code_simp
  have "\<exists>h'. pcolormesh_nan_heap ?h 0 1 2 = Inr h' \<and> length h' = length ?h
          \<and> h' ! 0 = FloatArray ?lx \<and> h' ! 1 = FloatArray ?ly
          \<and> ((2::nat) \<noteq> 0 \<and> (2::nat) \<noteq> 1 \<longrightarrow> h' ! 2 = ?h ! 2)"
    using pcolormesh_nan_heap_in_place[OF d l r s, of 2] two ok unfolding cx cy by blast
  then obtain h' where e: "pcolormesh_nan_heap ?h 0 1 2 = Inr h'"
    and len: "length h' = Suc (Suc (Suc 0))"
    and c: "h' ! 0 = FloatArray ?lx" "h' ! 1 = FloatArray ?ly" "h' ! 2 = ?c"
    by auto
  have a: "pcolormesh_nan_heap ?h 0 1 2 = Inr [FloatArray ?lx, FloatArray ?ly, ?c]"
    using list_of_three[OF len] unfolding e c by simp
  let ?sx = "[[NaN, NaN, NaN], [Fin 1, Fin 2, Fin 3], [NaN, NaN, NaN]]"
  let ?sy = "[[NaN, NaN, NaN], [Fin 4, Fin 5, Fin 6], [NaN, NaN, NaN]]"
  let ?tx = "[[Fin 3, Fin 3, Fin 3], [Fin 3, Fin 3, Fin 3], [Fin 3, Fin 3, Fin 3]]"
  let ?ty = "[[Fin 6, Fin 6, Fin 6], [Fin 6, Fin 6, Fin 6], [Fin 6, Fin 6, Fin 6]]"
  let ?k = "[FloatArray ?sx, FloatArray ?sy, ?c]"
  have l2: "0 < length ?k" "1 < length ?k" by simp_all
  have r2: "?k ! 0 = FloatArray ?sx" "?k ! 1 = FloatArray ?sy" by simp_all
  have s2: "shape 3 3 ?sx" "shape 3 3 ?sy" by (simp_all add: shape_def)
  have p2: "pcolormesh_nan_call ?sx ?sy = Inr (?tx, ?ty)" by code_simp
  have "\<exists>k'. pcolormesh_nan_heap ?k 0 1 2 = Inr k' \<and> length k' = length ?k
          \<and> k' ! 0 = FloatArray ?tx \<and> k' ! 1 = FloatArray ?ty
          \<and> ((2::nat) \<noteq> 0 \<and> (2::nat) \<noteq> 1 \<longrightarrow> k' ! 2 = ?k ! 2)"
    using pcolormesh_nan_heap_in_place[OF d l2 r2 s2, of 2] p2 by blast
  then obtain k' where e2: "pcolormesh_nan_heap ?k 0 1 2 = Inr k'"
    and len2: "length k' = Suc (Suc (Suc 0))"
    and c2: "k' ! 0 = FloatArray ?tx" "k' ! 1 = FloatArray ?ty" "k' ! 2 = ?c"
    by auto
  have b: "pcolormesh_nan_heap ?k 0 1 2 = Inr [FloatArray ?tx, FloatArray ?ty, ?c]"
    using list_of_three[OF len2] unfolding e2 c2 by simp
  let ?n = "[FloatArray [[NaN]], FloatArray [[NaN]], ?c]"
  have l3: "0 < length ?n" "1 < length ?n" by simp_all
  have r3: "?n ! 0 = FloatArray [[NaN]]" "?n ! 1 = FloatArray [[NaN]]" by simp_all
  have s3: "shape 1 1 [[NaN]]" by (simp add: shape_def)
  have p3: "pcolormesh_nan_call [[NaN]] [[NaN]] = Inl ValueError" by code_simp
  have f: "pcolormesh_nan_heap ?n 0 1 2 = Inl ValueError"
    using pcolormesh_nan_heap_in_place[OF d l3 r3 s3 s3, of 2] p3 by blast
  from s v cx cy run a b f show ?thesis by blast
qed

section \<open>The masker on a concrete heap\<close>

theorem mask_low_horizon_heap_unchanged_witness:
  "mask_low_horizon_heap
     [IntArray [[5]], FloatArray [[Fin 1, Fin 2], [Fin 3, Fin 4]],
      FloatArray [[Fin 5, Fin 6], [Fin 7, Fin 8]], FloatArray [[NaN]]] 0 1 2 3 (Fin 10) =
   Inr ([IntArray [[5]], FloatArray [[Fin 1, Fin 2], [Fin 3, Fin 4]],
         FloatArray [[Fin 5, Fin 6], [Fin 7, Fin 8]], FloatArray [[NaN]],
         IntArray [[5]], FloatArray [[NaN, NaN], [NaN, Fin 4]],
         FloatArray [[NaN, NaN], [NaN, Fin 8]], FloatArray [[NaN]]], 7, 5, 6)
   \<and> [IntArray [[5]], FloatArray [[Fin 1, Fin 2], [Fin 3, Fin 4]],
         FloatArray [[Fin 5, Fin 6], [Fin 7, Fin 8]], FloatArray [[NaN]],
         IntArray [[5]], FloatArray [[NaN, NaN], [NaN, Fin 4]],
         FloatArray [[NaN, NaN], [NaN, Fin 8]], FloatArray [[NaN]]] ! 1 =
      [IntArray [[5]], FloatArray [[Fin 1, Fin 2], [Fin 3, Fin 4]],
       FloatArray [[Fin 5, Fin 6], [Fin 7, Fin 8]], FloatArray [[NaN]]] ! 1
   \<and> length [IntArray [[5]], FloatArray [[Fin 1, Fin 2], [Fin 3, Fin 4]],
       FloatArray [[Fin 5, Fin 6], [Fin 7, Fin 8]], FloatArray [[NaN]]] \<le> (5::nat)"
proof -
  let ?h = "[IntArray [[5]], FloatArray [[Fin 1, Fin 2], [Fin 3, Fin 4]],
      FloatArray [[Fin 5, Fin 6], [Fin 7, Fin 8]], FloatArray [[NaN]]]"
  let ?h' = "[IntArray [[5]], FloatArray [[Fin 1, Fin 2], [Fin 3, Fin 4]],
         FloatArray [[Fin 5, Fin 6], [Fin 7, Fin 8]], FloatArray [[NaN]],
         IntArray [[5]], FloatArray [[NaN, NaN], [NaN, Fin 4]],
         FloatArray [[NaN, NaN], [NaN, Fin 8]], FloatArray [[NaN]]]"
  have p: "mask_low_horizon_heap ?h 0 1 2 3 (Fin 10) = Inr (?h', 7, 5, 6)"
    by code_simp
  from mask_low_horizon_heap_unchanged[OF p]
  have a: "\<forall>a<length ?h. ?h' ! a = ?h ! a" and b: "length ?h \<le> (5::nat)" by blast+
  have "(1::nat) < length ?h" by simp
  with a have "?h' ! 1 = ?h ! 1" by blast
  with p b show ?thesis by blast
qed

text \<open>
  The arrays that the masker returns on the heap hold what the function on array
  values computes, and the two fail alike.
\<close>

lemma mask_low_horizon_heap_result:
  assumes a: "frame < length h" "lon_map < length h" "lat_map < length h"
    and f: "h ! lon_map = FloatArray lo" "h ! lat_map = FloatArray la"
  shows "mask_low_horizon_heap h frame lon_map lat_map el_map T =
     (case mask_low_horizon (h ! frame) lo la (astype_float (h ! el_map)) T of
        Inl e \<Rightarrow> Inl e
      | Inr (f', lo', la') \<Rightarrow>
          Inr (h @ [h ! frame, FloatArray lo', FloatArray la', FloatArray f'],
               length h + 3, length h + 1, length h + 2))"
proof -
  let ?n = "length h"
  have s3: "\<And>idx g A B C. store_nan (Suc (Suc (Suc ?n))) idx (h @ [A, B, C, FloatArray g]) =
     (case assign_nan idx g of Inl e \<Rightarrow> Inl e | Inr g' \<Rightarrow> Inr (h @ [A, B, C, FloatArray g']))"
    by (simp add: store_nan_def nth_append list_update_append split: sum.splits)
  have s1: "\<And>idx g A C D. store_nan (Suc ?n) idx (h @ [A, FloatArray g, C, D]) =
     (case assign_nan idx g of Inl e \<Rightarrow> Inl e | Inr g' \<Rightarrow> Inr (h @ [A, FloatArray g', C, D]))"
    by (simp add: store_nan_def nth_append list_update_append split: sum.splits)
  have s2: "\<And>idx g A B D. store_nan (Suc (Suc ?n)) idx (h @ [A, B, FloatArray g, D]) =
     (case assign_nan idx g of Inl e \<Rightarrow> Inl e | Inr g' \<Rightarrow> Inr (h @ [A, B, FloatArray g', D]))"
    by (simp add: store_nan_def nth_append list_update_append split: sum.splits)
  show ?thesis
    using a f
    by (simp add: mask_low_horizon_heap_def mask_low_horizon_def alloc_def Let_def nth_append
        s1 s2 s3 split: sum.splits)
qed

end
